theory Spec2Isabelle
  imports Complex_Main
begin

section \<open>JavaScript values\<close>

text \<open>
  Both clients read JSON bodies and hand JavaScript values back to their callers. A value is
  what \<open>JSON.parse\<close> can produce, plus \<open>Date\<close> objects (the mock yield units carry
  one). An object is its list of own properties; \<open>JSON.parse\<close> keeps every key once, and
  a theorem that depends on it assumes the keys distinct. \<open>undefined\<close> is never
  stored: a read that may yield it returns an \<open>option\<close>, with \<open>None\<close> for
  \<open>undefined\<close>. Strings are lists of ASCII characters. Numbers are exact reals: rounding to
  binary64 is not part of the model.
\<close>

datatype jsvalue =
    JNull
  | JBool bool
  | JNum real
  | JStr string
  | JArr "jsvalue list"
  | JObj "(string \<times> jsvalue) list"
  | JDate real

text \<open>What a \<open>throw\<close> carries: the error's class and its message.\<close>

datatype js_error = Error string | TypeError string | SyntaxError string

fun message :: "js_error \<Rightarrow> string" where
  "message (Error m) = m"
| "message (TypeError m) = m"
| "message (SyntaxError m) = m"

text \<open>Sequencing of steps that may throw: the first error ends the computation.\<close>

fun and_then :: "js_error + 'a \<Rightarrow> ('a \<Rightarrow> js_error + 'b) \<Rightarrow> js_error + 'b" where
  "and_then (Inl e) f = Inl e"
| "and_then (Inr x) f = f x"

text \<open>Truthiness, as \<open>!x\<close> and \<open>x || y\<close> test it.\<close>

fun truthy :: "jsvalue \<Rightarrow> bool" where
  "truthy JNull = False"
| "truthy (JBool b) = b"
| "truthy (JNum r) = (r \<noteq> 0)"
| "truthy (JStr s) = (s \<noteq> [])"
| "truthy (JArr xs) = True"
| "truthy (JObj kvs) = True"
| "truthy (JDate t) = True"

text \<open>
  \<open>v.k\<close> for the property names the clients read (\<open>HYPE\<close>, \<open>levels\<close>, \<open>px\<close>,
  \<open>sz\<close>, \<open>yieldUnits\<close>, \<open>rates\<close>, \<open>positions\<close>, \<open>tradeId\<close>): none of them is an
  inherited property, an array index or \<open>length\<close>, so only an object can hold one. Reading
  a property of \<open>null\<close> throws a TypeError; its message is the engine's (here V8's
  wording, without the quotation marks around the name).
\<close>

fun get_prop :: "jsvalue \<Rightarrow> string \<Rightarrow> js_error + jsvalue option" where
  "get_prop JNull k = Inl (TypeError (''Cannot read properties of null (reading '' @ k @ '')''))"
| "get_prop (JObj kvs) k = Inr (map_of kvs k)"
| "get_prop v k = Inr None"

text \<open>\<open>x || d\<close>, where \<open>x\<close> may be \<open>undefined\<close>.\<close>

fun or_default :: "jsvalue option \<Rightarrow> jsvalue \<Rightarrow> jsvalue" where
  "or_default None d = d"
| "or_default (Some x) d = (if truthy x then x else d)"

text \<open>The decimal numeral of a natural number, as a template literal prints it.\<close>

fun digit_char :: "nat \<Rightarrow> char" where
  "digit_char n = ''0123456789'' ! n"

fun show_nat :: "nat \<Rightarrow> string" where
  "show_nat n = (if n < 10 then [digit_char n] else show_nat (n div 10) @ [digit_char (n mod 10)])"

declare show_nat.simps [simp del]

section \<open>The HTTP exchange\<close>

text \<open>
  What \<open>await fetch(...)\<close> gives: a rejection, or a response with its \<open>ok\<close> flag, its
  \<open>status\<close> and the outcome of \<open>await response.json()\<close> (a rejection when the body is
  not JSON).
\<close>

record response =
  ok :: bool
  status :: nat
  json_body :: "js_error + jsvalue"

type_synonym fetched = "js_error + response"

text \<open>
  Every method of both clients starts with the same three steps: await the fetch, throw
  \<open>Error('HTTP error! status: N')\<close> unless \<open>response.ok\<close>, await \<open>response.json()\<close>.
\<close>

fun request :: "fetched \<Rightarrow> js_error + jsvalue" where
  "request (Inl e) = Inl e"
| "request (Inr r) =
     (if \<not> ok r then Inl (Error (''HTTP error! status: '' @ show_nat (status r)))
      else json_body r)"

section \<open>BorosClient\<close>

definition msPerDay :: real where
  "msPerDay = 24 * 60 * 60 * 1000"

definition getMockYieldUnits :: "real \<Rightarrow> jsvalue" where
  "getMockYieldUnits now = JArr
     [JObj [(''id'', JStr ''yu-btc-001''), (''asset'', JStr ''BTC''),
            (''maturity'', JDate (now + 30 * 24 * 60 * 60 * 1000)),
            (''currentRate'', JNum 0.0001), (''impliedRate'', JNum 0.00012),
            (''price'', JNum 0.98), (''volume'', JNum 1500000)],
      JObj [(''id'', JStr ''yu-eth-001''), (''asset'', JStr ''ETH''),
            (''maturity'', JDate (now + 30 * 24 * 60 * 60 * 1000)),
            (''currentRate'', JNum 0.00005), (''impliedRate'', JNum 0.00008),
            (''price'', JNum 0.99), (''volume'', JNum 2500000)]]"

text \<open>The \<open>try\<close> block of \<open>getYieldUnits\<close>, then the method with its \<open>catch\<close>.\<close>

definition getYieldUnits_try :: "fetched \<Rightarrow> js_error + jsvalue" where
  "getYieldUnits_try f =
     and_then (request f) (\<lambda>data.
     and_then (get_prop data ''yieldUnits'') (\<lambda>v.
     Inr (or_default v (JArr []))))"

definition getYieldUnits :: "real \<Rightarrow> fetched \<Rightarrow> js_error + jsvalue" where
  "getYieldUnits now f =
     (case getYieldUnits_try f of
        Inr v \<Rightarrow> Inr v
      | Inl e \<Rightarrow> Inr (getMockYieldUnits now))"

definition mockFundingRates :: jsvalue where
  "mockFundingRates = JObj [(''BTC'', JNum 0.0001), (''ETH'', JNum 0.00005)]"

definition getFundingRates_try :: "fetched \<Rightarrow> js_error + jsvalue" where
  "getFundingRates_try f =
     and_then (request f) (\<lambda>data.
     and_then (get_prop data ''rates'') (\<lambda>v.
     Inr (or_default v (JObj []))))"

definition getFundingRates :: "fetched \<Rightarrow> js_error + jsvalue" where
  "getFundingRates f =
     (case getFundingRates_try f of
        Inr v \<Rightarrow> Inr v
      | Inl e \<Rightarrow> Inr mockFundingRates)"

definition getPositions_try :: "fetched \<Rightarrow> js_error + jsvalue" where
  "getPositions_try f =
     and_then (request f) (\<lambda>data.
     and_then (get_prop data ''positions'') (\<lambda>v.
     Inr (or_default v (JArr []))))"

definition getPositions :: "fetched \<Rightarrow> js_error + jsvalue" where
  "getPositions f =
     (case getPositions_try f of
        Inr v \<Rightarrow> Inr v
      | Inl e \<Rightarrow> Inr (JArr []))"

text \<open>
  The result object of \<open>placeTrade\<close>: \<open>tradeId\<close> is \<open>data.tradeId\<close>, which may be
  \<open>undefined\<close>; a field the literal does not mention is \<open>None\<close>.
\<close>

record trade_result =
  success :: bool
  tradeId :: "jsvalue option"
  error :: "string option"

definition placeTrade_try :: "fetched \<Rightarrow> js_error + trade_result" where
  "placeTrade_try f =
     and_then (request f) (\<lambda>data.
     and_then (get_prop data ''tradeId'') (\<lambda>v.
     Inr \<lparr>success = True, tradeId = v, error = None\<rparr>))"

definition placeTrade :: "fetched \<Rightarrow> js_error + trade_result" where
  "placeTrade f =
     (case placeTrade_try f of
        Inr r \<Rightarrow> Inr r
      | Inl e \<Rightarrow> Inr \<lparr>success = False, tradeId = None, error = Some (message e)\<rparr>)"

text \<open>
  \<open>getMockHistoricalRates\<close>: the loop \<open>for (let i = days; i >= 0; i--)\<close>. \<open>now\<close> is
  the one reading of \<open>Date.now()\<close>; \<open>rnd k\<close> is what the \<open>k\<close>-th call of
  \<open>Math.random()\<close> returns, and the loop counts its calls.
\<close>

record point =
  timestamp :: real
  rate :: real

definition baseRate :: "string \<Rightarrow> real" where
  "baseRate asset = (if asset = ''BTC'' then 0.0001 else 0.00005)"

text \<open>The point one iteration pushes, with loop counter \<open>i\<close>, at the \<open>k\<close>-th random number.\<close>

definition mock_point :: "string \<Rightarrow> real \<Rightarrow> (nat \<Rightarrow> real) \<Rightarrow> real \<Rightarrow> nat \<Rightarrow> point" where
  "mock_point asset now rnd i k =
     \<lparr>timestamp = now - i * msPerDay, rate = baseRate asset + (rnd k - 0.5) * 0.00005\<rparr>"

function mock_loop :: "string \<Rightarrow> real \<Rightarrow> (nat \<Rightarrow> real) \<Rightarrow> real \<Rightarrow> nat \<Rightarrow> point list \<Rightarrow> point list" where
  "mock_loop asset now rnd i k data =
     (if i \<ge> 0
      then mock_loop asset now rnd (i - 1) (Suc k) (data @ [mock_point asset now rnd i k])
      else data)"
  by pat_completeness auto
termination
  by (relation "measure (\<lambda>(asset, now, rnd, i, k, data). nat \<lfloor>i + 1\<rfloor>)")
    (simp_all add: nat_less_iff)

declare mock_loop.simps [simp del]

definition getMockHistoricalRates :: "string \<Rightarrow> real \<Rightarrow> real \<Rightarrow> (nat \<Rightarrow> real) \<Rightarrow> point list" where
  "getMockHistoricalRates asset days now rnd = mock_loop asset now rnd days 0 []"

definition point_value :: "point \<Rightarrow> jsvalue" where
  "point_value p = JObj [(''timestamp'', JNum (timestamp p)), (''rate'', JNum (rate p))]"

definition getHistoricalRates_try :: "fetched \<Rightarrow> js_error + jsvalue" where
  "getHistoricalRates_try f =
     and_then (request f) (\<lambda>data.
     and_then (get_prop data ''rates'') (\<lambda>v.
     Inr (or_default v (JArr []))))"

definition getHistoricalRates ::
  "string \<Rightarrow> real \<Rightarrow> real \<Rightarrow> (nat \<Rightarrow> real) \<Rightarrow> fetched \<Rightarrow> js_error + jsvalue" where
  "getHistoricalRates asset days now rnd f =
     (case getHistoricalRates_try f of
        Inr v \<Rightarrow> Inr v
      | Inl e \<Rightarrow> Inr (JArr (map point_value (getMockHistoricalRates asset days now rnd))))"

text \<open>A random source that returns the same number at every call.\<close>

definition constant_source :: "real \<Rightarrow> nat \<Rightarrow> real" where
  "constant_source x k = x"

section \<open>Numbers read from strings\<close>

text \<open>
  What \<open>parseFloat\<close> returns: \<open>NaN\<close>, an infinity or a finite number (an exact real
  here; \<open>-0\<close> is \<open>0\<close>).
\<close>

datatype number = NaN | NegInfinity | Finite real | Infinity

fun number_gt0 :: "number \<Rightarrow> bool" where
  "number_gt0 (Finite r) = (r > 0)"
| "number_gt0 Infinity = True"
| "number_gt0 n = False"

fun number_lt0 :: "number \<Rightarrow> bool" where
  "number_lt0 (Finite r) = (r < 0)"
| "number_lt0 NegInfinity = True"
| "number_lt0 n = False"

fun number_abs :: "number \<Rightarrow> number" where
  "number_abs NaN = NaN"
| "number_abs (Finite r) = Finite \<bar>r\<bar>"
| "number_abs NegInfinity = Infinity"
| "number_abs Infinity = Infinity"

fun number_neg :: "number \<Rightarrow> number" where
  "number_neg NaN = NaN"
| "number_neg (Finite r) = Finite (- r)"
| "number_neg NegInfinity = Infinity"
| "number_neg Infinity = NegInfinity"

text \<open>
  \<open>parseFloat\<close> of a string, after ECMAScript: skip leading white space, take the longest
  prefix that is a \<open>StrDecimalLiteral\<close> (a sign, then \<open>Infinity\<close> or digits with an
  optional fraction and an optional exponent) and return its value, \<open>NaN\<close> when there is
  no such prefix.
\<close>

definition is_digit :: "char \<Rightarrow> bool" where
  "is_digit c = (48 \<le> (of_char c :: nat) \<and> (of_char c :: nat) \<le> 57)"

definition is_space :: "char \<Rightarrow> bool" where
  "is_space c = ((of_char c :: nat) \<in> {9, 10, 11, 12, 13, 32})"

definition digits_val :: "string \<Rightarrow> nat" where
  "digits_val ds = foldl (\<lambda>a c. 10 * a + (of_char c - 48)) 0 ds"

definition pow10 :: "int \<Rightarrow> real" where
  "pow10 e = (if e \<ge> 0 then 10 ^ nat e else 1 / 10 ^ nat (- e))"

definition signed_digits :: "int \<Rightarrow> string \<Rightarrow> int" where
  "signed_digits sg s =
     (let es = takeWhile is_digit s in if es = [] then 0 else sg * int (digits_val es))"

fun parse_exponent :: "string \<Rightarrow> int" where
  "parse_exponent [] = 0"
| "parse_exponent (c # cs) =
     (if c = CHR ''e'' \<or> c = CHR ''E''
      then (case cs of
              [] \<Rightarrow> 0
            | s # ds \<Rightarrow>
                if s = CHR ''+'' then signed_digits 1 ds
                else if s = CHR ''-'' then signed_digits (- 1) ds
                else signed_digits 1 cs)
      else 0)"

definition parse_unsigned :: "string \<Rightarrow> number" where
  "parse_unsigned s =
     (if take 8 s = ''Infinity'' then Infinity
      else
        let ip = takeWhile is_digit s;
            r1 = dropWhile is_digit s;
            dot = (r1 \<noteq> [] \<and> hd r1 = CHR ''.'');
            fp = (if dot then takeWhile is_digit (tl r1) else []);
            r2 = (if dot then dropWhile is_digit (tl r1) else r1)
        in if ip = [] \<and> fp = [] then NaN
           else Finite ((real (digits_val ip) + real (digits_val fp) / 10 ^ length fp)
                        * pow10 (parse_exponent r2)))"

definition parseFloat :: "string \<Rightarrow> number" where
  "parseFloat s =
     (case dropWhile is_space s of
        [] \<Rightarrow> NaN
      | c # cs \<Rightarrow>
          if c = CHR ''-'' then number_neg (parse_unsigned cs)
          else if c = CHR ''+'' then parse_unsigned cs
          else parse_unsigned (c # cs))"

text \<open>
  \<open>parseFloat\<close> of a value that need not be a string: it parses \<open>String(v)\<close>. A number
  prints as a numeral that reads back as itself; \<open>null\<close>, booleans, objects and dates print
  as text that starts no numeral; an array prints its elements separated by commas (with
  \<open>null\<close> as the empty string), so only its first element counts. \<open>undefined\<close> gives
  \<open>NaN\<close>.
\<close>

fun parseFloat_value :: "jsvalue \<Rightarrow> number" where
  "parseFloat_value (JStr s) = parseFloat s"
| "parseFloat_value (JNum r) = Finite r"
| "parseFloat_value (JArr (x # xs)) = parseFloat_value x"
| "parseFloat_value v = NaN"

fun parseFloat_arg :: "jsvalue option \<Rightarrow> number" where
  "parseFloat_arg None = NaN"
| "parseFloat_arg (Some v) = parseFloat_value v"

section \<open>HyperliquidClient: the REST methods\<close>

text \<open>
  \<open>getCurrentPrice\<close>: the \<open>catch\<close> logs and rethrows, so the method fails with
  whatever its \<open>try\<close> block threw.
\<close>

definition getCurrentPrice_try :: "fetched \<Rightarrow> js_error + number" where
  "getCurrentPrice_try f =
     and_then (request f) (\<lambda>data.
     and_then (get_prop data ''HYPE'') (\<lambda>hypePrice.
     if \<not> (case hypePrice of None \<Rightarrow> False | Some v \<Rightarrow> truthy v)
     then Inl (Error ''HYPE price not found in response'')
     else Inr (parseFloat_arg hypePrice)))"

definition getCurrentPrice :: "fetched \<Rightarrow> js_error + number" where
  "getCurrentPrice f =
     (case getCurrentPrice_try f of
        Inr price \<Rightarrow> Inr price
      | Inl e \<Rightarrow> Inl e)"

text \<open>
  \<open>Object.entries(data)\<close>: the own enumerable properties. An array and a string have
  their indices as keys; numbers, booleans and dates have none; \<open>null\<close> throws.
\<close>

fun object_entries :: "jsvalue \<Rightarrow> js_error + (string \<times> jsvalue) list" where
  "object_entries JNull = Inl (TypeError ''Cannot convert undefined or null to object'')"
| "object_entries (JObj kvs) = Inr kvs"
| "object_entries (JArr xs) = Inr (zip (map show_nat [0..<length xs]) xs)"
| "object_entries (JStr s) = Inr (zip (map show_nat [0..<length s]) (map (\<lambda>c. JStr [c]) s))"
| "object_entries v = Inr []"

text \<open>
  The body of the \<open>for\<close> loop of \<open>getAllMidPrices\<close>, and the loop. \<open>prices\<close> is an
  ordinary object (\<open>{}\<close>), so the assignment \<open>prices[symbol] = parseFloat(price)\<close> adds
  or overwrites an own property for every key but \<open>__proto__\<close>: that key is an accessor
  inherited from \<open>Object.prototype\<close>, whose setter ignores a number and stores nothing.
  (In the body the key is an own property: \<open>JSON.parse\<close> defines it as data, and
  \<open>Object.entries\<close> lists it.)
\<close>

fun add_price :: "string \<times> jsvalue \<Rightarrow> (string \<rightharpoonup> number) \<Rightarrow> (string \<rightharpoonup> number)" where
  "add_price (symbol, JStr price) prices =
     (if symbol = ''__proto__'' then prices else prices(symbol \<mapsto> parseFloat price))"
| "add_price (symbol, v) prices = prices"

definition getAllMidPrices_try :: "fetched \<Rightarrow> js_error + (string \<rightharpoonup> number)" where
  "getAllMidPrices_try f =
     and_then (request f) (\<lambda>data.
     and_then (object_entries data) (\<lambda>entries.
     Inr (fold add_price entries Map.empty)))"

definition getAllMidPrices :: "fetched \<Rightarrow> js_error + (string \<rightharpoonup> number)" where
  "getAllMidPrices f =
     (case getAllMidPrices_try f of
        Inr prices \<Rightarrow> Inr prices
      | Inl e \<Rightarrow> Inl e)"

text \<open>
  \<open>getOrderBook\<close>. \<open>map_levels\<close> is \<open>data.levels?.map(level => [parseFloat(level.px),
  parseFloat(level.sz)])\<close>: \<open>undefined\<close> (\<open>None\<close>) when \<open>levels\<close> is missing or
  \<open>null\<close>, a TypeError when it is anything but an array, and the error of the first level
  whose properties cannot be read. The source evaluates it once for the bids and once for
  the asks.
\<close>

record OrderBook =
  bids :: "(number \<times> number) list"
  asks :: "(number \<times> number) list"
  book_timestamp :: real

definition parse_level :: "jsvalue \<Rightarrow> js_error + (number \<times> number)" where
  "parse_level level =
     and_then (get_prop level ''px'') (\<lambda>px.
     and_then (get_prop level ''sz'') (\<lambda>sz.
     Inr (parseFloat_arg px, parseFloat_arg sz)))"

fun map_throwing :: "('a \<Rightarrow> js_error + 'b) \<Rightarrow> 'a list \<Rightarrow> js_error + 'b list" where
  "map_throwing g [] = Inr []"
| "map_throwing g (x # xs) =
     and_then (g x) (\<lambda>y. and_then (map_throwing g xs) (\<lambda>ys. Inr (y # ys)))"

fun map_levels :: "jsvalue option \<Rightarrow> js_error + (number \<times> number) list option" where
  "map_levels None = Inr None"
| "map_levels (Some JNull) = Inr None"
| "map_levels (Some (JArr ls)) = and_then (map_throwing parse_level ls) (\<lambda>ps. Inr (Some ps))"
| "map_levels (Some v) = Inl (TypeError ''data.levels?.map is not a function'')"

definition bids_of :: "(number \<times> number) list option \<Rightarrow> (number \<times> number) list" where
  "bids_of m = (case m of None \<Rightarrow> [] | Some ps \<Rightarrow> filter (\<lambda>level. number_gt0 (snd level)) ps)"

definition asks_of :: "(number \<times> number) list option \<Rightarrow> (number \<times> number) list" where
  "asks_of m =
     (case m of
        None \<Rightarrow> []
      | Some ps \<Rightarrow>
          map (\<lambda>level. (fst level, number_abs (snd level)))
            (filter (\<lambda>level. number_lt0 (snd level)) ps))"

definition getOrderBook_try :: "real \<Rightarrow> fetched \<Rightarrow> js_error + OrderBook" where
  "getOrderBook_try now f =
     and_then (request f) (\<lambda>data.
     and_then (get_prop data ''levels'') (\<lambda>levels.
     and_then (map_levels levels) (\<lambda>m1.
     and_then (map_levels levels) (\<lambda>m2.
     Inr \<lparr>bids = bids_of m1, asks = asks_of m2, book_timestamp = now\<rparr>))))"

definition getOrderBook :: "real \<Rightarrow> fetched \<Rightarrow> js_error + OrderBook" where
  "getOrderBook now f =
     (case getOrderBook_try now f of
        Inr book \<Rightarrow> Inr book
      | Inl e \<Rightarrow> Inl e)"

section \<open>HyperliquidClient: the streaming subscription\<close>

text \<open>
  The client holds one field, \<open>wsConnection\<close>. Around it sits what the browser keeps: the
  sockets that \<open>new WebSocket\<close> has created, each with its \<open>readyState\<close> and with the
  callback its handlers have captured, and the timers that \<open>setTimeout\<close> has scheduled
  and not yet run, each with its due time and the callback its closure has captured.
  \<open>wsConnection\<close> refers to a socket by its position in the list of sockets. Time is a
  clock in milliseconds. \<open>closedAt\<close> belongs to no object of the program: it records the
  clock at which the socket's close event was dispatched.
\<close>

datatype readyState = CONNECTING | OPEN | CLOSING | CLOSED

record 'cb websocket =
  readyState :: readyState
  callback :: 'cb
  closedAt :: "nat option"

record 'cb world =
  wsConnection :: "nat option"
  sockets :: "'cb websocket list"
  timers :: "(nat \<times> 'cb) list"
  clock :: nat

definition fresh :: "nat \<Rightarrow> 'cb world" where
  "fresh t0 = \<lparr>wsConnection = None, sockets = [], timers = [], clock = t0\<rparr>"

text \<open>
  \<open>subscribeToUpdates(callback)\<close>: \<open>new WebSocket(this.WS_URL)\<close> creates a socket in
  state \<open>CONNECTING\<close>, the reference is overwritten, and the four handlers are attached.
  (The constructor throws only on a malformed URL.)
\<close>

definition subscribeToUpdates :: "'cb \<Rightarrow> 'cb world \<Rightarrow> 'cb world" where
  "subscribeToUpdates cb w =
     w\<lparr>sockets := sockets w @ [\<lparr>readyState = CONNECTING, callback = cb, closedAt = None\<rparr>],
       wsConnection := Some (length (sockets w))\<rparr>"

text \<open>
  The \<open>onclose\<close> handler of socket \<open>i\<close>: \<open>setTimeout(() => this.subscribeToUpdates(callback),
  5000)\<close>.
\<close>

definition onclose :: "nat \<Rightarrow> 'cb world \<Rightarrow> 'cb world" where
  "onclose i w = w\<lparr>timers := timers w @ [(clock w + 5000, callback (sockets w ! i))]\<rparr>"

text \<open>
  \<open>WebSocket.close()\<close>: a socket that is connecting or open starts closing; one that is
  closing or closed is left alone. The close event comes later.
\<close>

definition ws_close :: "'cb websocket \<Rightarrow> 'cb websocket" where
  "ws_close s =
     (if readyState s = CONNECTING \<or> readyState s = OPEN then s\<lparr>readyState := CLOSING\<rparr> else s)"

definition disconnect :: "'cb world \<Rightarrow> 'cb world" where
  "disconnect w =
     (case wsConnection w of
        None \<Rightarrow> w
      | Some i \<Rightarrow> w\<lparr>sockets := (sockets w)[i := ws_close (sockets w ! i)], wsConnection := None\<rparr>)"

definition isConnected :: "'cb world \<Rightarrow> bool" where
  "isConnected w =
     (case wsConnection w of
        None \<Rightarrow> False
      | Some i \<Rightarrow> i < length (sockets w) \<and> readyState (sockets w ! i) = OPEN)"

text \<open>
  What can happen to an adapter: a call of one of its two methods, an event of one of its
  sockets, a due timer running, time passing. A socket opens only while connecting and
  closes once; its \<open>onopen\<close> handler sends the subscription message, its
  \<open>onmessage\<close> handler calls the callback and its \<open>onerror\<close> handler logs: none of
  them changes the state kept here, and message events are left out. A timer runs no
  earlier than its due time, and runs once. \<open>step\<close> is \<open>None\<close> for an event that cannot happen in the state.
\<close>

datatype 'cb event =
    Subscribe 'cb
  | Disconnect
  | SocketOpen nat
  | SocketError nat
  | SocketClose nat
  | TimerFire nat
  | Advance nat

fun step :: "'cb event \<Rightarrow> 'cb world \<Rightarrow> 'cb world option" where
  "step (Subscribe cb) w = Some (subscribeToUpdates cb w)"
| "step Disconnect w = Some (disconnect w)"
| "step (SocketOpen i) w =
     (if i < length (sockets w) \<and> readyState (sockets w ! i) = CONNECTING
      then Some (w\<lparr>sockets := (sockets w)[i := (sockets w ! i)\<lparr>readyState := OPEN\<rparr>]\<rparr>)
      else None)"
| "step (SocketError i) w =
     (if i < length (sockets w) \<and> readyState (sockets w ! i) \<noteq> CLOSED then Some w else None)"
| "step (SocketClose i) w =
     (if i < length (sockets w) \<and> readyState (sockets w ! i) \<noteq> CLOSED
      then Some (onclose i
             (w\<lparr>sockets := (sockets w)
                   [i := (sockets w ! i)\<lparr>readyState := CLOSED, closedAt := Some (clock w)\<rparr>]\<rparr>))
      else None)"
| "step (TimerFire k) w =
     (if k < length (timers w) \<and> fst (timers w ! k) \<le> clock w
      then Some (subscribeToUpdates (snd (timers w ! k))
             (w\<lparr>timers := take k (timers w) @ drop (Suc k) (timers w)\<rparr>))
      else None)"
| "step (Advance d) w = Some (w\<lparr>clock := clock w + d\<rparr>)"

fun run :: "'cb event list \<Rightarrow> 'cb world \<Rightarrow> 'cb world option" where
  "run [] w = Some w"
| "run (e # es) w = (case step e w of None \<Rightarrow> None | Some w' \<Rightarrow> run es w')"

text \<open>The connections that have not fully closed, and the calls of \<open>subscribe\<close> in a run.\<close>

definition active :: "'cb world \<Rightarrow> nat" where
  "active w = length (filter (\<lambda>s. readyState s \<noteq> CLOSED) (sockets w))"

fun is_Subscribe :: "'cb event \<Rightarrow> bool" where
  "is_Subscribe (Subscribe cb) = True"
| "is_Subscribe e = False"

definition subscribes :: "'cb event list \<Rightarrow> nat" where
  "subscribes es = length (filter is_Subscribe es)"

text \<open>
  Three properties of a state that the steps keep. \<open>subscribed cb\<close>: a connection
  with callback \<open>cb\<close> has not fully closed, or a reconnect with \<open>cb\<close> is pending.
  \<open>timer_origin\<close>: every pending reconnect was scheduled by the close event of a socket
  with the same callback, 5000 ms after that event. \<open>closed_log\<close>: every closed socket
  closed in the past, at least 5000 ms before any pending reconnect is due.
\<close>

definition subscribed :: "'cb \<Rightarrow> 'cb world \<Rightarrow> bool" where
  "subscribed cb w \<longleftrightarrow>
     (\<exists>s \<in> set (sockets w). readyState s \<noteq> CLOSED \<and> callback s = cb) \<or>
     (\<exists>d \<in> set (timers w). snd d = cb)"

definition timer_origin :: "'cb world \<Rightarrow> bool" where
  "timer_origin w \<longleftrightarrow>
     (\<forall>d \<in> set (timers w). \<exists>j < length (sockets w).
        readyState (sockets w ! j) = CLOSED \<and> callback (sockets w ! j) = snd d \<and>
        (\<exists>t. closedAt (sockets w ! j) = Some t \<and> fst d = t + 5000))"

definition closed_log :: "'cb world \<Rightarrow> bool" where
  "closed_log w \<longleftrightarrow>
     (\<forall>s \<in> set (sockets w). readyState s = CLOSED \<longrightarrow>
        (\<exists>t. closedAt s = Some t \<and> t \<le> clock w \<and> (\<forall>d \<in> set (timers w). t + 5000 \<le> fst d)))"

section \<open>The rate adapter fails soft\<close>

text \<open>
  C4. Whenever the request of \<open>getFundingRates\<close> fails (the fetch rejects, the status is
  not a success, or the body is not JSON), the method returns exactly the mapping
  \<open>{BTC: 0.0001, ETH: 0.00005}\<close>, as a result and not as an error.
\<close>

theorem getFundingRates_fallback:
  assumes "f = Inl e \<or> (\<exists>r. f = Inr r \<and> (\<not> ok r \<or> (\<exists>e'. json_body r = Inl e')))"
  shows "getFundingRates f = Inr (JObj [(''BTC'', JNum 0.0001), (''ETH'', JNum 0.00005)])"
  using assms
  by (auto simp: getFundingRates_def getFundingRates_try_def mockFundingRates_def)

theorem getFundingRates_fallback_witness:
  "\<not> ok \<lparr>ok = False, status = 503, json_body = Inr (JObj [])\<rparr> \<and>
   getFundingRates (Inr \<lparr>ok = False, status = 503, json_body = Inr (JObj [])\<rparr>) =
     Inr (JObj [(''BTC'', JNum 0.0001), (''ETH'', JNum 0.00005)])"
  using getFundingRates_fallback
    [of "Inr \<lparr>ok = False, status = 503, json_body = Inr (JObj [])\<rparr>" "Error []"]
  by simp

text \<open>
  C7. \<open>placeTrade\<close> never raises. When the fetch rejects, the status is not a success or
  the body is not JSON, it returns \<open>success = false\<close> with the error's message; so it does
  when the body is \<open>null\<close>, whose \<open>tradeId\<close> cannot be read. When the request succeeds
  with an object, it returns \<open>success = true\<close> with the object's \<open>tradeId\<close>.
\<close>

theorem placeTrade_never_raises:
  "(\<exists>res. placeTrade f = Inr res) \<and>
   (f = Inl e \<longrightarrow>
      placeTrade f = Inr \<lparr>success = False, tradeId = None, error = Some (message e)\<rparr>) \<and>
   (f = Inr r \<and> \<not> ok r \<longrightarrow>
      placeTrade f = Inr \<lparr>success = False, tradeId = None,
        error = Some (''HTTP error! status: '' @ show_nat (status r))\<rparr>) \<and>
   (f = Inr r \<and> ok r \<and> json_body r = Inl e \<longrightarrow>
      placeTrade f = Inr \<lparr>success = False, tradeId = None, error = Some (message e)\<rparr>) \<and>
   (f = Inr r \<and> ok r \<and> json_body r = Inr JNull \<longrightarrow>
      placeTrade f = Inr \<lparr>success = False, tradeId = None,
        error = Some ''Cannot read properties of null (reading tradeId)''\<rparr>) \<and>
   (f = Inr r \<and> ok r \<and> json_body r = Inr (JObj kvs) \<longrightarrow>
      placeTrade f = Inr \<lparr>success = True, tradeId = map_of kvs ''tradeId'', error = None\<rparr>)"
  by (auto simp: placeTrade_def placeTrade_try_def split: sum.splits)

theorem placeTrade_never_raises_witness:
  "placeTrade (Inr \<lparr>ok = True, status = 200,
       json_body = Inr (JObj [(''tradeId'', JStr ''t-1'')])\<rparr>) =
     Inr \<lparr>success = True, tradeId = Some (JStr ''t-1''), error = None\<rparr> \<and>
   placeTrade (Inr \<lparr>ok = False, status = 500, json_body = Inr (JObj [])\<rparr>) =
     Inr \<lparr>success = False, tradeId = None, error = Some ''HTTP error! status: 500''\<rparr>"
  using
    placeTrade_never_raises
      [of "Inr \<lparr>ok = True, status = 200, json_body = Inr (JObj [(''tradeId'', JStr ''t-1'')])\<rparr>"
          "Error []"
          "\<lparr>ok = True, status = 200, json_body = Inr (JObj [(''tradeId'', JStr ''t-1'')])\<rparr>"
          "[(''tradeId'', JStr ''t-1'')]"]
    placeTrade_never_raises
      [of "Inr \<lparr>ok = False, status = 500, json_body = Inr (JObj [])\<rparr>"
          "Error []"
          "\<lparr>ok = False, status = 500, json_body = Inr (JObj [])\<rparr>" "[]"]
  by (simp add: show_nat.simps)

text \<open>
  What makes the \<open>try\<close> block of a read operation throw, and what it returns when
  the field is missing.
\<close>

lemma field_read_failure:
  "and_then (request f) (\<lambda>data. and_then (get_prop data k) (\<lambda>v. Inr (or_default v d))) = Inl e
   \<Longrightarrow> f = Inl e \<or>
       (\<exists>r. f = Inr r \<and> (\<not> ok r \<or> json_body r = Inl e \<or> json_body r = Inr JNull))"
  apply (cases f)
   apply simp
  subgoal for r
    apply (cases "json_body r")
     apply (auto split: if_splits)
    subgoal for data by (cases data) auto
    done
  done

lemma field_missing:
  assumes "ok r" and "json_body r = Inr data" and "data \<noteq> JNull"
    and "\<forall>kvs. data = JObj kvs \<longrightarrow> map_of kvs k = None"
  shows "and_then (request (Inr r))
           (\<lambda>data. and_then (get_prop data k) (\<lambda>v. Inr (or_default v d))) = Inr d"
  using assms by (cases data) auto

text \<open>
  C10, as the code has it. For each read operation of the rate adapter, a successful
  response whose body parses to a value other than \<open>null\<close> and lacks the expected field
  gives the empty sequence or the empty mapping, not the mock data. The \<open>catch\<close> block
  runs only when the fetch rejects, the status check throws, the body is not JSON, or the
  body is \<open>null\<close> (reading a field of \<open>null\<close> throws).
\<close>

theorem missing_field_gives_empty:
  "(ok r \<and> json_body r = Inr data \<and> data \<noteq> JNull \<longrightarrow>
      ((\<forall>kvs. data = JObj kvs \<longrightarrow> map_of kvs ''yieldUnits'' = None) \<longrightarrow>
         getYieldUnits now (Inr r) = Inr (JArr [])) \<and>
      ((\<forall>kvs. data = JObj kvs \<longrightarrow> map_of kvs ''rates'' = None) \<longrightarrow>
         getFundingRates (Inr r) = Inr (JObj []) \<and>
         getHistoricalRates asset days now rnd (Inr r) = Inr (JArr [])) \<and>
      ((\<forall>kvs. data = JObj kvs \<longrightarrow> map_of kvs ''positions'' = None) \<longrightarrow>
         getPositions (Inr r) = Inr (JArr []))) \<and>
   (getYieldUnits_try f = Inl e \<or> getFundingRates_try f = Inl e \<or>
    getPositions_try f = Inl e \<or> getHistoricalRates_try f = Inl e \<longrightarrow>
      f = Inl e \<or>
      (\<exists>r'. f = Inr r' \<and> (\<not> ok r' \<or> json_body r' = Inl e \<or> json_body r' = Inr JNull)))"
proof (intro conjI impI)
  assume a: "ok r \<and> json_body r = Inr data \<and> data \<noteq> JNull"
  {
    assume "\<forall>kvs. data = JObj kvs \<longrightarrow> map_of kvs ''yieldUnits'' = None"
    with a show "getYieldUnits now (Inr r) = Inr (JArr [])"
      by (simp add: getYieldUnits_def getYieldUnits_try_def field_missing del: request.simps)
  next
    assume "\<forall>kvs. data = JObj kvs \<longrightarrow> map_of kvs ''rates'' = None"
    with a show "getFundingRates (Inr r) = Inr (JObj [])"
      and "getHistoricalRates asset days now rnd (Inr r) = Inr (JArr [])"
      by (simp_all add: getFundingRates_def getFundingRates_try_def getHistoricalRates_def
          getHistoricalRates_try_def field_missing del: request.simps)
  next
    assume "\<forall>kvs. data = JObj kvs \<longrightarrow> map_of kvs ''positions'' = None"
    with a show "getPositions (Inr r) = Inr (JArr [])"
      by (simp add: getPositions_def getPositions_try_def field_missing del: request.simps)
  }
next
  assume "getYieldUnits_try f = Inl e \<or> getFundingRates_try f = Inl e \<or>
    getPositions_try f = Inl e \<or> getHistoricalRates_try f = Inl e"
  then show "f = Inl e \<or>
      (\<exists>r'. f = Inr r' \<and> (\<not> ok r' \<or> json_body r' = Inl e \<or> json_body r' = Inr JNull))"
    unfolding getYieldUnits_try_def getFundingRates_try_def getPositions_try_def
      getHistoricalRates_try_def
    using field_read_failure by blast
qed

theorem missing_field_gives_empty_witness:
  "getYieldUnits 0 (Inr \<lparr>ok = True, status = 200, json_body = Inr (JObj [])\<rparr>) = Inr (JArr []) \<and>
   getFundingRates (Inr \<lparr>ok = True, status = 200, json_body = Inr (JObj [])\<rparr>) = Inr (JObj []) \<and>
   getHistoricalRates ''BTC'' 30 0 (constant_source 0)
     (Inr \<lparr>ok = True, status = 200, json_body = Inr (JObj [])\<rparr>) = Inr (JArr []) \<and>
   getPositions (Inr \<lparr>ok = True, status = 200, json_body = Inr (JObj [])\<rparr>) = Inr (JArr [])"
  using missing_field_gives_empty
    [of "\<lparr>ok = True, status = 200, json_body = Inr (JObj [])\<rparr>" "JObj []" 0 "''BTC''" 30
        "constant_source 0" "Inr \<lparr>ok = True, status = 200, json_body = Inr (JObj [])\<rparr>" "Error []"]
  by simp

theorem null_body_gives_mock:
  "getFundingRates (Inr \<lparr>ok = True, status = 200, json_body = Inr JNull\<rparr>) =
     Inr (JObj [(''BTC'', JNum 0.0001), (''ETH'', JNum 0.00005)]) \<and>
   getFundingRates (Inr \<lparr>ok = True, status = 200, json_body = Inr JNull\<rparr>) \<noteq> Inr (JObj [])"
  by (simp add: getFundingRates_def getFundingRates_try_def mockFundingRates_def)

section \<open>The venue adapter fails loud\<close>

lemmas parseFloat_defs =
  parseFloat_def parse_unsigned_def is_space_def is_digit_def digits_val_def pow10_def
  signed_digits_def

text \<open>
  C6. \<open>getCurrentPrice\<close> hands every failure to its caller: the rejection of the fetch,
  \<open>Error('HTTP error! status: N')\<close> on a status that is not a success, the parse error of
  a body that is not JSON (the spec's UpstreamError), and \<open>Error('HYPE price not found in
  response')\<close> when the object has no \<open>HYPE\<close> (the spec's NotFoundError). On success
  it returns \<open>parseFloat\<close> of the price string.
\<close>

theorem getCurrentPrice_fails_loud:
  "(f = Inl e \<longrightarrow> getCurrentPrice f = Inl e) \<and>
   (f = Inr r \<and> \<not> ok r \<longrightarrow>
      getCurrentPrice f = Inl (Error (''HTTP error! status: '' @ show_nat (status r)))) \<and>
   (f = Inr r \<and> ok r \<and> json_body r = Inl e \<longrightarrow> getCurrentPrice f = Inl e) \<and>
   (f = Inr r \<and> ok r \<and> json_body r = Inr (JObj kvs) \<and> map_of kvs ''HYPE'' = None \<longrightarrow>
      getCurrentPrice f = Inl (Error ''HYPE price not found in response'')) \<and>
   (f = Inr r \<and> ok r \<and> json_body r = Inr (JObj kvs) \<and> map_of kvs ''HYPE'' = Some (JStr s)
      \<and> s \<noteq> [] \<longrightarrow>
      getCurrentPrice f = Inr (parseFloat s))"
  by (auto simp: getCurrentPrice_def getCurrentPrice_try_def)

theorem getCurrentPrice_fails_loud_witness:
  "getCurrentPrice (Inr \<lparr>ok = True, status = 200,
       json_body = Inr (JObj [(''BTC'', JStr ''65000.5''), (''HYPE'', JStr ''42.5'')])\<rparr>) =
     Inr (Finite 42.5) \<and>
   getCurrentPrice (Inr \<lparr>ok = True, status = 200,
       json_body = Inr (JObj [(''BTC'', JStr ''65000.5'')])\<rparr>) =
     Inl (Error ''HYPE price not found in response'') \<and>
   getCurrentPrice (Inr \<lparr>ok = False, status = 502, json_body = Inr (JObj [])\<rparr>) =
     Inl (Error ''HTTP error! status: 502'')"
proof -
  have p: "parseFloat ''42.5'' = Finite 42.5"
    by (simp add: parseFloat_defs)
  show ?thesis
    using
      getCurrentPrice_fails_loud
        [of "Inr \<lparr>ok = True, status = 200,
               json_body = Inr (JObj [(''BTC'', JStr ''65000.5''), (''HYPE'', JStr ''42.5'')])\<rparr>"
            "Error []"
            "\<lparr>ok = True, status = 200,
               json_body = Inr (JObj [(''BTC'', JStr ''65000.5''), (''HYPE'', JStr ''42.5'')])\<rparr>"
            "[(''BTC'', JStr ''65000.5''), (''HYPE'', JStr ''42.5'')]" "''42.5''"]
      getCurrentPrice_fails_loud
        [of "Inr \<lparr>ok = True, status = 200, json_body = Inr (JObj [(''BTC'', JStr ''65000.5'')])\<rparr>"
            "Error []"
            "\<lparr>ok = True, status = 200, json_body = Inr (JObj [(''BTC'', JStr ''65000.5'')])\<rparr>"
            "[(''BTC'', JStr ''65000.5'')]" "[]"]
      getCurrentPrice_fails_loud
        [of "Inr \<lparr>ok = False, status = 502, json_body = Inr (JObj [])\<rparr>"
            "Error []" "\<lparr>ok = False, status = 502, json_body = Inr (JObj [])\<rparr>" "[]" "[]"]
      p
    by (simp add: show_nat.simps)
qed

text \<open>What the loop of \<open>getAllMidPrices\<close> leaves under a key.\<close>

lemma fold_add_price_other:
  "k \<notin> fst ` set kvs \<Longrightarrow> fold add_price kvs m k = m k"
proof (induction kvs arbitrary: m)
  case Nil
  then show ?case by simp
next
  case (Cons kv kvs)
  obtain k' v where kv: "kv = (k', v)" by (cases kv)
  with Cons.prems have "k \<noteq> k'" "k \<notin> fst ` set kvs" by auto
  with Cons.IH kv show ?case by (cases v) simp_all
qed

lemma fold_add_price_proto:
  "fold add_price kvs m ''__proto__'' = m ''__proto__''"
proof (induction kvs arbitrary: m)
  case Nil
  then show ?case by simp
next
  case (Cons kv kvs)
  obtain k' v where kv: "kv = (k', v)" by (cases kv)
  have "add_price kv m ''__proto__'' = m ''__proto__''"
    unfolding kv by (cases v) simp_all
  with Cons.IH [of "add_price kv m"] show ?case by simp
qed

lemma fold_add_price_string:
  "distinct (map fst kvs) \<Longrightarrow> (k, JStr s) \<in> set kvs \<Longrightarrow> k \<noteq> ''__proto__'' \<Longrightarrow>
   fold add_price kvs m k = Some (parseFloat s)"
proof (induction kvs arbitrary: m)
  case Nil
  then show ?case by simp
next
  case (Cons kv kvs)
  obtain k' v where kv: "kv = (k', v)" by (cases kv)
  from Cons.prems kv have d: "distinct (map fst kvs)" and nk: "k' \<notin> fst ` set kvs" by auto
  show ?case
  proof (cases "(k, JStr s) \<in> set kvs")
    case True
    with Cons.IH [OF d _ Cons.prems(3)] show ?thesis by simp
  next
    case False
    with Cons.prems kv have "k' = k" "v = JStr s" by auto
    with kv nk Cons.prems(3) fold_add_price_other [of k kvs] show ?thesis by simp
  qed
qed

lemma fold_add_price_skipped:
  "distinct (map fst kvs) \<Longrightarrow> (k, v) \<in> set kvs \<Longrightarrow> \<forall>s. v \<noteq> JStr s \<Longrightarrow>
   fold add_price kvs m k = m k"
proof (induction kvs arbitrary: m)
  case Nil
  then show ?case by simp
next
  case (Cons kv kvs)
  obtain k' v' where kv: "kv = (k', v')" by (cases kv)
  from Cons.prems kv have d: "distinct (map fst kvs)" and nk: "k' \<notin> fst ` set kvs" by auto
  show ?case
  proof (cases "(k, v) \<in> set kvs")
    case True
    then have "k \<in> fst ` set kvs" by force
    with nk have "k \<noteq> k'" by auto
    have "fold add_price kvs (add_price kv m) k = add_price kv m k"
      by (rule Cons.IH [OF d True Cons.prems(3)])
    moreover from \<open>k \<noteq> k'\<close> kv have "add_price kv m k = m k"
      by (cases v') simp_all
    ultimately show ?thesis by simp
  next
    case False
    with Cons.prems kv have "k' = k" "v' = v" by auto
    with kv nk Cons.prems(3) fold_add_price_other [of k kvs] show ?thesis by (cases v) simp_all
  qed
qed

text \<open>
  For a successful response whose body is an object, \<open>getAllMidPrices\<close> returns a
  mapping that holds, under each key other than \<open>__proto__\<close> with a string value,
  \<open>parseFloat\<close> of that string, and nothing else: a field whose value is not a string is
  left out without an error, and so is a field named \<open>__proto__\<close>. When every value is a
  string, the mapping has the keys of the body but \<open>__proto__\<close>.
\<close>

lemma getAllMidPrices_other_keys:
  assumes "ok r" and "json_body r = Inr (JObj kvs)" and "distinct (map fst kvs)"
  shows "\<exists>prices. getAllMidPrices (Inr r) = Inr prices \<and>
     (\<forall>k s. (k, JStr s) \<in> set kvs \<and> k \<noteq> ''__proto__'' \<longrightarrow> prices k = Some (parseFloat s)) \<and>
     prices ''__proto__'' = None \<and>
     (\<forall>k v. (k, v) \<in> set kvs \<and> (\<forall>s. v \<noteq> JStr s) \<longrightarrow> prices k = None) \<and>
     (\<forall>k. k \<notin> fst ` set kvs \<longrightarrow> prices k = None) \<and>
     ((\<forall>v \<in> snd ` set kvs. \<exists>s. v = JStr s) \<longrightarrow>
        dom prices = fst ` set kvs - {''__proto__''})"
proof -
  let ?p = "fold add_price kvs Map.empty"
  have res: "getAllMidPrices (Inr r) = Inr ?p"
    using assms by (simp add: getAllMidPrices_def getAllMidPrices_try_def)
  have str: "\<forall>k s. (k, JStr s) \<in> set kvs \<and> k \<noteq> ''__proto__'' \<longrightarrow> ?p k = Some (parseFloat s)"
    using fold_add_price_string [OF assms(3)] by blast
  have proto: "?p ''__proto__'' = None"
    by (simp add: fold_add_price_proto)
  have skip: "\<forall>k v. (k, v) \<in> set kvs \<and> (\<forall>s. v \<noteq> JStr s) \<longrightarrow> ?p k = None"
  proof (intro allI impI)
    fix k v
    assume "(k, v) \<in> set kvs \<and> (\<forall>s. v \<noteq> JStr s)"
    then show "?p k = None"
      using fold_add_price_skipped [OF assms(3), of k v Map.empty] by simp
  qed
  have other: "\<forall>k. k \<notin> fst ` set kvs \<longrightarrow> ?p k = None"
    by (simp add: fold_add_price_other)
  have "dom ?p = fst ` set kvs - {''__proto__''}"
    if all: "\<forall>v \<in> snd ` set kvs. \<exists>s. v = JStr s"
  proof (rule set_eqI)
    fix k
    show "k \<in> dom ?p \<longleftrightarrow> k \<in> fst ` set kvs - {''__proto__''}"
    proof (cases "k \<in> fst ` set kvs \<and> k \<noteq> ''__proto__''")
      case False
      with other proto show ?thesis by (auto simp: dom_def)
    next
      case True
      then obtain v where kv: "(k, v) \<in> set kvs" by auto
      then have "v \<in> snd ` set kvs" by force
      with all obtain s where "v = JStr s" by blast
      with kv str True show ?thesis by (auto simp: dom_def)
    qed
  qed
  with res str proto skip other show ?thesis by blast
qed

text \<open>
  C2. For a body whose fields are all string-valued prices, \<open>getAllMidPrices\<close> is to
  return a mapping with exactly the key set of the body. It does not at the body
  \<open>{"__proto__": "1.5", "BTC": "2"}\<close>: the loop reads both entries, but the assignment
  under \<open>__proto__\<close> stores nothing, and the result is \<open>{BTC: 2}\<close>, with one key where
  the body has two.
\<close>

theorem getAllMidPrices_drops_proto:
  "getAllMidPrices (Inr \<lparr>ok = True, status = 200,
       json_body = Inr (JObj [(''__proto__'', JStr ''1.5''), (''BTC'', JStr ''2'')])\<rparr>) =
     Inr [''BTC'' \<mapsto> Finite 2] \<and>
   dom [''BTC'' \<mapsto> Finite 2] = {''BTC''} \<and>
   fst ` set [(''__proto__'', JStr ''1.5''), (''BTC'', JStr ''2'')] = {''__proto__'', ''BTC''} \<and>
   ''__proto__'' \<noteq> ''BTC''"
proof -
  have p: "parseFloat ''2'' = Finite 2"
    by (simp add: parseFloat_defs)
  show ?thesis
    by (simp add: getAllMidPrices_def getAllMidPrices_try_def p)
qed

text \<open>Levels that are objects with string fields are read without an error.\<close>

lemma map_throwing_levels:
  "map_throwing parse_level (map (\<lambda>(px, sz). JObj [(''px'', JStr px), (''sz'', JStr sz)]) raw) =
     Inr (map (\<lambda>(px, sz). (parseFloat px, parseFloat sz)) raw)"
  by (induction raw) (auto simp: parse_level_def)

text \<open>
  C3. For a successful response whose \<open>levels\<close> is a sequence of \<open>{px, sz}\<close> entries,
  \<open>getOrderBook\<close> returns as bids the parsed price and size of the entries whose size
  is positive, and as asks those of the entries whose size is negative, with the size made
  positive; \<open>levels\<close> that is missing, \<open>null\<close> or empty gives empty bids and asks.
\<close>

theorem getOrderBook_splits_levels:
  assumes "ok r" and "json_body r = Inr (JObj kvs)"
  shows
   "(map_of kvs ''levels'' =
        Some (JArr (map (\<lambda>(px, sz). JObj [(''px'', JStr px), (''sz'', JStr sz)]) raw)) \<longrightarrow>
      getOrderBook now (Inr r) = Inr
        \<lparr>bids = filter (\<lambda>level. number_gt0 (snd level))
                  (map (\<lambda>(px, sz). (parseFloat px, parseFloat sz)) raw),
         asks = map (\<lambda>level. (fst level, number_abs (snd level)))
                  (filter (\<lambda>level. number_lt0 (snd level))
                    (map (\<lambda>(px, sz). (parseFloat px, parseFloat sz)) raw)),
         book_timestamp = now\<rparr>) \<and>
    (map_of kvs ''levels'' = None \<or> map_of kvs ''levels'' = Some JNull \<or>
     map_of kvs ''levels'' = Some (JArr []) \<longrightarrow>
      getOrderBook now (Inr r) = Inr \<lparr>bids = [], asks = [], book_timestamp = now\<rparr>)"
  using assms
  by (auto simp: getOrderBook_def getOrderBook_try_def map_throwing_levels bids_of_def asks_of_def)

theorem getOrderBook_splits_levels_witness:
  "getOrderBook 1700000000000 (Inr \<lparr>ok = True, status = 200, json_body = Inr (JObj [(''levels'',
      JArr [JObj [(''px'', JStr ''10''), (''sz'', JStr ''5'')],
            JObj [(''px'', JStr ''9''), (''sz'', JStr ''-3'')]])])\<rparr>) =
   Inr \<lparr>bids = [(Finite 10, Finite 5)], asks = [(Finite 9, Finite 3)],
        book_timestamp = 1700000000000\<rparr>"
proof -
  have p: "parseFloat ''10'' = Finite 10" "parseFloat ''5'' = Finite 5"
    "parseFloat ''9'' = Finite 9" "parseFloat ''-3'' = Finite (- 3)"
    by (simp_all add: parseFloat_defs)
  show ?thesis
    using getOrderBook_splits_levels
      [of "\<lparr>ok = True, status = 200, json_body = Inr (JObj [(''levels'',
             JArr [JObj [(''px'', JStr ''10''), (''sz'', JStr ''5'')],
                   JObj [(''px'', JStr ''9''), (''sz'', JStr ''-3'')]])])\<rparr>"
          "[(''levels'', JArr [JObj [(''px'', JStr ''10''), (''sz'', JStr ''5'')],
                              JObj [(''px'', JStr ''9''), (''sz'', JStr ''-3'')]])]"
          "[(''10'', ''5''), (''9'', ''-3'')]" 1700000000000]
      p
    by simp
qed

section \<open>The mock rate series\<close>

text \<open>The loop, started at a whole number of days, pushes one point per day down to zero.\<close>

lemma mock_loop_nat:
  "mock_loop asset now rnd (real n) k data =
     data @ map (\<lambda>j. mock_point asset now rnd (real (n - j)) (k + j)) [0..<Suc n]"
proof (induction n arbitrary: k data)
  case 0
  show ?case
    by (subst mock_loop.simps, subst mock_loop.simps) simp
next
  case (Suc n)
  have "mock_loop asset now rnd (real (Suc n)) k data =
      mock_loop asset now rnd (real n) (Suc k) (data @ [mock_point asset now rnd (real (Suc n)) k])"
    by (subst mock_loop.simps) simp
  also have "\<dots> = (data @ [mock_point asset now rnd (real (Suc n)) k]) @
      map (\<lambda>j. mock_point asset now rnd (real (n - j)) (Suc k + j)) [0..<Suc n]"
    by (rule Suc.IH)
  also have "\<dots> = data @
      map (\<lambda>j. mock_point asset now rnd (real (Suc n - j)) (k + j)) [0..<Suc (Suc n)]"
  proof -
    have "[0..<Suc (Suc n)] = 0 # map Suc [0..<Suc n]"
      by (simp only: upt_conv_Cons [of 0 "Suc (Suc n)"] map_Suc_upt)
    then show ?thesis by (simp add: comp_def del: upt_Suc)
  qed
  finally show ?case .
qed

text \<open>
  C5, as the code has it. For every asset and every whole number \<open>n \<ge> 0\<close> of days, when
  the request of \<open>getHistoricalRates\<close> fails, the result has exactly \<open>n + 1\<close> points,
  whatever the random source returns in \<open>[0, 1)\<close>: consecutive timestamps are one day
  (86400000 ms) apart, the last is the current time, they increase strictly, and each rate
  lies within 0.000025 of the base rate (0.0001 for BTC, 0.00005 otherwise).
\<close>

theorem mock_rates_shape:
  assumes "f = Inl e \<or> (\<exists>r. f = Inr r \<and> (\<not> ok r \<or> (\<exists>e'. json_body r = Inl e')))"
    and "\<forall>k. 0 \<le> rnd k \<and> rnd k < 1"
  shows "\<exists>pts. getHistoricalRates asset (real n) now rnd f = Inr (JArr (map point_value pts)) \<and>
     length pts = n + 1 \<and>
     (\<forall>j < n. timestamp (pts ! Suc j) = timestamp (pts ! j) + 24 * 60 * 60 * 1000) \<and>
     timestamp (pts ! n) = now \<and>
     sorted_wrt (<) (map timestamp pts) \<and>
     (\<forall>p \<in> set pts.
        (if asset = ''BTC'' then 0.0001 else 0.00005) - 0.000025 \<le> rate p \<and>
        rate p \<le> (if asset = ''BTC'' then 0.0001 else 0.00005) + 0.000025)"
proof -
  let ?pt = "\<lambda>j. mock_point asset now rnd (real (n - j)) j"
  let ?pts = "map ?pt [0..<Suc n]"
  have pts: "getMockHistoricalRates asset (real n) now rnd = ?pts"
    using mock_loop_nat [of asset now rnd n 0 "[]"] by (simp add: getMockHistoricalRates_def)
  have "\<exists>e'. request f = Inl e'"
    using assms(1) by (cases f) (auto split: if_splits)
  then obtain e' where "request f = Inl e'" ..
  then have "getHistoricalRates_try f = Inl e'"
    by (simp add: getHistoricalRates_try_def)
  then have res: "getHistoricalRates asset (real n) now rnd f = Inr (JArr (map point_value ?pts))"
    by (auto simp: getHistoricalRates_def pts)
  have len: "length ?pts = n + 1" by simp
  have nth: "\<And>j. j \<le> n \<Longrightarrow> timestamp (?pts ! j) = now - real (n - j) * msPerDay"
  proof -
    fix j assume "j \<le> n"
    then have "?pts ! j = ?pt j"
      using nth_map [of j "[0..<Suc n]" ?pt] nth_upt [of 0 j "Suc n"] by simp
    then show "timestamp (?pts ! j) = now - real (n - j) * msPerDay"
      by (simp add: mock_point_def)
  qed
  have step: "\<forall>j < n. timestamp (?pts ! Suc j) = timestamp (?pts ! j) + 24 * 60 * 60 * 1000"
  proof (intro allI impI)
    fix j assume j: "j < n"
    then have "real (n - j) = real (n - Suc j) + 1" by (simp add: Suc_diff_Suc)
    with j nth [of j] nth [of "Suc j"] show
      "timestamp (?pts ! Suc j) = timestamp (?pts ! j) + 24 * 60 * 60 * 1000"
      by (simp add: msPerDay_def algebra_simps)
  qed
  have last: "timestamp (?pts ! n) = now" using nth [of n] by simp
  have sorted: "sorted_wrt (<) (map timestamp ?pts)"
  proof -
    have "\<And>i j. i < j \<Longrightarrow> j < Suc n \<Longrightarrow> timestamp (?pts ! i) < timestamp (?pts ! j)"
    proof -
      fix i j assume ij: "i < j" "j < Suc n"
      then have "real (n - j) < real (n - i)" by simp
      then have "real (n - j) * msPerDay < real (n - i) * msPerDay"
        by (simp add: msPerDay_def)
      with ij nth [of i] nth [of j] show "timestamp (?pts ! i) < timestamp (?pts ! j)"
        by simp
    qed
    then show ?thesis
      by (simp add: sorted_wrt_iff_nth_less del: map_map upt_Suc)
  qed
  have rates: "\<forall>p \<in> set ?pts.
        (if asset = ''BTC'' then 0.0001 else 0.00005) - 0.000025 \<le> rate p \<and>
        rate p \<le> (if asset = ''BTC'' then 0.0001 else 0.00005) + 0.000025"
  proof
    fix p assume "p \<in> set ?pts"
    then have "p \<in> ?pt ` set [0..<Suc n]" by (simp only: set_map)
    then obtain j where p: "p = ?pt j" by blast
    from assms(2) have "0 \<le> rnd j" "rnd j < 1" by auto
    then show "(if asset = ''BTC'' then 0.0001 else 0.00005) - 0.000025 \<le> rate p \<and>
        rate p \<le> (if asset = ''BTC'' then 0.0001 else 0.00005) + 0.000025"
      unfolding p by (simp add: mock_point_def baseRate_def)
  qed
  from res len step last sorted rates show ?thesis by blast
qed

theorem mock_rates_shape_witness:
  "\<exists>pts. getHistoricalRates ''BTC'' 5 1700000000000 (constant_source (1 / 2))
       (Inl (TypeError ''Failed to fetch'')) = Inr (JArr (map point_value pts)) \<and>
     length pts = 6 \<and> timestamp (pts ! 5) = 1700000000000 \<and>
     timestamp (pts ! 1) = timestamp (pts ! 0) + 86400000 \<and>
     0.000075 \<le> rate (pts ! 0) \<and> rate (pts ! 0) \<le> 0.000125"
proof -
  have src: "\<forall>k. 0 \<le> constant_source (1 / 2) k \<and> constant_source (1 / 2) k < 1"
    by (simp add: constant_source_def)
  obtain pts where pts:
    "getHistoricalRates ''BTC'' (real 5) 1700000000000 (constant_source (1 / 2))
       (Inl (TypeError ''Failed to fetch'')) = Inr (JArr (map point_value pts))"
    "length pts = 5 + 1"
    "\<forall>j < 5. timestamp (pts ! Suc j) = timestamp (pts ! j) + 24 * 60 * 60 * 1000"
    "timestamp (pts ! 5) = 1700000000000"
    "\<forall>p \<in> set pts.
        (if ''BTC'' = ''BTC'' then 0.0001 else 0.00005) - 0.000025 \<le> rate p \<and>
        rate p \<le> (if ''BTC'' = ''BTC'' then 0.0001 else 0.00005) + 0.000025"
    using mock_rates_shape
      [of "Inl (TypeError ''Failed to fetch'')" "TypeError ''Failed to fetch''"
          "constant_source (1 / 2)" "''BTC''" 5 1700000000000, OF _ src]
    by blast
  from pts(2) have "pts ! 0 \<in> set pts" by simp
  with pts(5) have "0.000075 \<le> rate (pts ! 0) \<and> rate (pts ! 0) \<le> 0.000125" by fastforce
  moreover from pts(3) have "timestamp (pts ! 1) = timestamp (pts ! 0) + 86400000"
    by fastforce
  ultimately show ?thesis using pts(1,2,4) by (intro exI [of _ pts]) simp
qed

theorem mock_rates_days_counterexample:
  "getHistoricalRates ''BTC'' (- 5) 0 (constant_source 0) (Inl (TypeError ''Failed to fetch'')) =
     Inr (JArr []) \<and>
   getHistoricalRates ''BTC'' (1 / 2) 0 (constant_source 0) (Inl (TypeError ''Failed to fetch'')) =
     Inr (JArr [JObj [(''timestamp'', JNum (- 43200000)), (''rate'', JNum 0.000075)]])"
  by (simp add: getHistoricalRates_def getHistoricalRates_try_def getMockHistoricalRates_def
      mock_loop.simps mock_point_def point_value_def msPerDay_def baseRate_def
      constant_source_def)

section \<open>The connection lifecycle\<close>

text \<open>
  Every step keeps the number of connections that have not fully closed, plus the number
  of pending reconnects, except a call of \<open>subscribe\<close>, which adds one.
\<close>

lemma filter_length_update:
  "i < length xs \<Longrightarrow>
   length (filter P (xs[i := y])) + (if P (xs ! i) then 1 else 0) =
   length (filter P xs) + (if P y then 1 else 0)"
proof (induction xs arbitrary: i)
  case Nil
  then show ?case by simp
next
  case (Cons x xs)
  then show ?case by (cases i) auto
qed

lemma ws_close_open: "readyState (ws_close s) \<noteq> CLOSED \<longleftrightarrow> readyState s \<noteq> CLOSED"
  by (simp add: ws_close_def)

lemma active_disconnect: "active (disconnect w) = active w"
proof (cases "wsConnection w")
  case None
  then show ?thesis by (simp add: disconnect_def)
next
  case (Some i)
  show ?thesis
  proof (cases "i < length (sockets w)")
    case True
    from filter_length_update [OF True, of "\<lambda>s. readyState s \<noteq> CLOSED" "ws_close (sockets w ! i)"]
    show ?thesis using Some by (simp add: disconnect_def active_def ws_close_open)
  next
    case False
    then have "(sockets w)[i := ws_close (sockets w ! i)] = sockets w"
      by (simp add: list_update_beyond)
    with Some show ?thesis by (simp add: disconnect_def active_def)
  qed
qed

lemma step_count:
  assumes "step e w = Some w'"
  shows "active w' + length (timers w') =
         active w + length (timers w) + (if is_Subscribe e then 1 else 0)"
proof (cases e)
  case (Subscribe cb)
  with assms show ?thesis by (auto simp: subscribeToUpdates_def active_def)
next
  case Disconnect
  with assms have "w' = disconnect w" by simp
  moreover have "timers (disconnect w) = timers w"
    by (simp add: disconnect_def split: option.splits)
  ultimately show ?thesis using Disconnect by (simp add: active_disconnect)
next
  case (SocketOpen i)
  with assms have i: "i < length (sockets w)" "readyState (sockets w ! i) = CONNECTING"
    and w': "w' = w\<lparr>sockets := (sockets w)[i := (sockets w ! i)\<lparr>readyState := OPEN\<rparr>]\<rparr>"
    by (auto split: if_splits)
  from filter_length_update [OF i(1), of "\<lambda>s. readyState s \<noteq> CLOSED" "(sockets w ! i)\<lparr>readyState := OPEN\<rparr>"] i(2)
  show ?thesis using SocketOpen w' by (simp add: active_def)
next
  case (SocketError i)
  with assms show ?thesis by (auto split: if_splits)
next
  case (SocketClose i)
  with assms have i: "i < length (sockets w)" "readyState (sockets w ! i) \<noteq> CLOSED"
    and w': "w' = onclose i (w\<lparr>sockets := (sockets w)
                   [i := (sockets w ! i)\<lparr>readyState := CLOSED, closedAt := Some (clock w)\<rparr>]\<rparr>)"
    by (auto split: if_splits)
  from filter_length_update [OF i(1), of "\<lambda>s. readyState s \<noteq> CLOSED"
      "(sockets w ! i)\<lparr>readyState := CLOSED, closedAt := Some (clock w)\<rparr>"] i(2)
  show ?thesis using SocketClose w' by (simp add: active_def onclose_def)
next
  case (TimerFire k)
  with assms have k: "k < length (timers w)"
    and w': "w' = subscribeToUpdates (snd (timers w ! k))
             (w\<lparr>timers := take k (timers w) @ drop (Suc k) (timers w)\<rparr>)"
    by (auto split: if_splits)
  from k show ?thesis using TimerFire w' by (auto simp: subscribeToUpdates_def active_def)
next
  case (Advance d)
  with assms show ?thesis by (auto simp: active_def)
qed

lemma run_count:
  "run es w = Some w' \<Longrightarrow>
   active w' + length (timers w') = active w + length (timers w) + subscribes es"
proof (induction es arbitrary: w)
  case Nil
  then show ?case by (simp add: subscribes_def)
next
  case (Cons e es)
  then obtain w1 where s: "step e w = Some w1" and r: "run es w1 = Some w'"
    by (auto split: option.splits)
  from Cons.IH [OF r] step_count [OF s] show ?case
    by (simp add: subscribes_def)
qed


text \<open>Every step keeps \<open>subscribed cb\<close>.\<close>

lemma update_keeps:
  assumes "s \<in> set xs" and "readyState s \<noteq> CLOSED \<and> callback s = cb"
  shows "(\<exists>s' \<in> set (xs[i := y]). readyState s' \<noteq> CLOSED \<and> callback s' = cb) \<or>
         (i < length xs \<and> readyState (xs ! i) \<noteq> CLOSED \<and> callback (xs ! i) = cb)"
proof -
  from assms(1) obtain j where j: "j < length xs" "xs ! j = s"
    by (auto simp: in_set_conv_nth)
  show ?thesis
  proof (cases "j = i")
    case True
    with j assms(2) show ?thesis by simp
  next
    case False
    with j have "xs[i := y] ! j = s" "j < length (xs[i := y])" by simp_all
    then have "s \<in> set (xs[i := y])" using nth_mem by blast
    with assms(2) show ?thesis by blast
  qed
qed

lemma remove_nth_keeps:
  assumes "d \<in> set ts" and "k < length ts"
  shows "d = ts ! k \<or> d \<in> set (take k ts @ drop (Suc k) ts)"
proof -
  from assms(1) obtain j where j: "j < length ts" "ts ! j = d"
    by (auto simp: in_set_conv_nth)
  consider "j < k" | "j = k" | "k < j" by linarith
  then show ?thesis
  proof cases
    case 1
    with j have "j < length (take k ts)" "take k ts ! j = d" by simp_all
    then have "d \<in> set (take k ts)" using nth_mem by blast
    then show ?thesis by simp
  next
    case 2
    with j show ?thesis by simp
  next
    case 3
    with j have "j - Suc k < length (drop (Suc k) ts)" "drop (Suc k) ts ! (j - Suc k) = d"
      by simp_all
    then have "d \<in> set (drop (Suc k) ts)" using nth_mem by blast
    then show ?thesis by simp
  qed
qed

lemma step_subscribed:
  assumes "step e w = Some w'" and "subscribed cb w"
  shows "subscribed cb w'"
proof (cases e)
  case (Subscribe c)
  with assms show ?thesis by (auto simp: subscribed_def subscribeToUpdates_def)
next
  case Disconnect
  show ?thesis
  proof (cases "wsConnection w")
    case None
    with assms Disconnect show ?thesis by (simp add: disconnect_def)
  next
    case (Some i)
    with assms(1) Disconnect have w': "sockets w' = (sockets w)[i := ws_close (sockets w ! i)]"
      "timers w' = timers w" by (auto simp: disconnect_def)
    from assms(2) show ?thesis unfolding subscribed_def
    proof
      assume "\<exists>s \<in> set (sockets w). readyState s \<noteq> CLOSED \<and> callback s = cb"
      then obtain s where s: "s \<in> set (sockets w)" "readyState s \<noteq> CLOSED \<and> callback s = cb"
        by blast
      from update_keeps [OF s, of i "ws_close (sockets w ! i)"]
      have "\<exists>s' \<in> set (sockets w'). readyState s' \<noteq> CLOSED \<and> callback s' = cb"
      proof
        assume "\<exists>s'\<in>set ((sockets w)[i := ws_close (sockets w ! i)]).
          readyState s' \<noteq> CLOSED \<and> callback s' = cb"
        then show ?thesis by (simp add: w')
      next
        assume a: "i < length (sockets w) \<and>
          readyState (sockets w ! i) \<noteq> CLOSED \<and> callback (sockets w ! i) = cb"
        then have "ws_close (sockets w ! i) \<in> set (sockets w')"
          by (simp add: w' set_update_memI)
        moreover from a have "readyState (ws_close (sockets w ! i)) \<noteq> CLOSED \<and>
          callback (ws_close (sockets w ! i)) = cb" by (simp add: ws_close_def)
        ultimately show ?thesis by blast
      qed
      then show "(\<exists>s \<in> set (sockets w'). readyState s \<noteq> CLOSED \<and> callback s = cb) \<or>
        (\<exists>d \<in> set (timers w'). snd d = cb)" by blast
    next
      assume "\<exists>d \<in> set (timers w). snd d = cb"
      then show "(\<exists>s \<in> set (sockets w'). readyState s \<noteq> CLOSED \<and> callback s = cb) \<or>
        (\<exists>d \<in> set (timers w'). snd d = cb)" by (simp add: w')
    qed
  qed
next
  case (SocketOpen i)
  with assms(1) have i: "i < length (sockets w)"
    and w': "sockets w' = (sockets w)[i := (sockets w ! i)\<lparr>readyState := OPEN\<rparr>]"
      "timers w' = timers w"
    by (auto split: if_splits)
  from assms(2) show ?thesis unfolding subscribed_def
  proof
    assume "\<exists>s \<in> set (sockets w). readyState s \<noteq> CLOSED \<and> callback s = cb"
    then obtain s where s: "s \<in> set (sockets w)" "readyState s \<noteq> CLOSED \<and> callback s = cb"
      by blast
    from update_keeps [OF s, of i "(sockets w ! i)\<lparr>readyState := OPEN\<rparr>"]
    have "\<exists>s' \<in> set (sockets w'). readyState s' \<noteq> CLOSED \<and> callback s' = cb"
    proof
      assume "\<exists>s'\<in>set ((sockets w)[i := (sockets w ! i)\<lparr>readyState := OPEN\<rparr>]).
          readyState s' \<noteq> CLOSED \<and> callback s' = cb"
      then show ?thesis by (simp add: w')
    next
      assume a: "i < length (sockets w) \<and>
          readyState (sockets w ! i) \<noteq> CLOSED \<and> callback (sockets w ! i) = cb"
      then have "(sockets w ! i)\<lparr>readyState := OPEN\<rparr> \<in> set (sockets w')"
        by (simp add: w' set_update_memI)
      moreover from a have "readyState ((sockets w ! i)\<lparr>readyState := OPEN\<rparr>) \<noteq> CLOSED \<and>
          callback ((sockets w ! i)\<lparr>readyState := OPEN\<rparr>) = cb" by simp
      ultimately show ?thesis by blast
    qed
    then show "(\<exists>s \<in> set (sockets w'). readyState s \<noteq> CLOSED \<and> callback s = cb) \<or>
        (\<exists>d \<in> set (timers w'). snd d = cb)" by blast
  next
    assume "\<exists>d \<in> set (timers w). snd d = cb"
    then show "(\<exists>s \<in> set (sockets w'). readyState s \<noteq> CLOSED \<and> callback s = cb) \<or>
        (\<exists>d \<in> set (timers w'). snd d = cb)" by (simp add: w')
  qed
next
  case (SocketError i)
  with assms show ?thesis by (auto split: if_splits)
next
  case (SocketClose i)
  with assms(1) have i: "i < length (sockets w)"
    and w': "sockets w' = (sockets w)
               [i := (sockets w ! i)\<lparr>readyState := CLOSED, closedAt := Some (clock w)\<rparr>]"
      "timers w' = timers w @ [(clock w + 5000, callback (sockets w ! i))]"
    by (auto simp: onclose_def split: if_splits)
  from assms(2) show ?thesis unfolding subscribed_def
  proof
    assume "\<exists>s \<in> set (sockets w). readyState s \<noteq> CLOSED \<and> callback s = cb"
    then obtain s where s: "s \<in> set (sockets w)" "readyState s \<noteq> CLOSED \<and> callback s = cb"
      by blast
    from update_keeps [OF s, of i
        "(sockets w ! i)\<lparr>readyState := CLOSED, closedAt := Some (clock w)\<rparr>"]
    show "(\<exists>s \<in> set (sockets w'). readyState s \<noteq> CLOSED \<and> callback s = cb) \<or>
        (\<exists>d \<in> set (timers w'). snd d = cb)"
      by (auto simp: w')
  next
    assume "\<exists>d \<in> set (timers w). snd d = cb"
    then show "(\<exists>s \<in> set (sockets w'). readyState s \<noteq> CLOSED \<and> callback s = cb) \<or>
        (\<exists>d \<in> set (timers w'). snd d = cb)" by (auto simp: w')
  qed
next
  case (TimerFire k)
  with assms(1) have k: "k < length (timers w)"
    and w': "sockets w' = sockets w @
               [\<lparr>readyState = CONNECTING, callback = snd (timers w ! k), closedAt = None\<rparr>]"
      "timers w' = take k (timers w) @ drop (Suc k) (timers w)"
    by (auto simp: subscribeToUpdates_def split: if_splits)
  from assms(2) show ?thesis unfolding subscribed_def
  proof
    assume "\<exists>s \<in> set (sockets w). readyState s \<noteq> CLOSED \<and> callback s = cb"
    then show "(\<exists>s \<in> set (sockets w'). readyState s \<noteq> CLOSED \<and> callback s = cb) \<or>
        (\<exists>d \<in> set (timers w'). snd d = cb)" by (auto simp: w')
  next
    assume "\<exists>d \<in> set (timers w). snd d = cb"
    then obtain d where d: "d \<in> set (timers w)" "snd d = cb" by blast
    from remove_nth_keeps [OF d(1) k] d(2)
    show "(\<exists>s \<in> set (sockets w'). readyState s \<noteq> CLOSED \<and> callback s = cb) \<or>
        (\<exists>d \<in> set (timers w'). snd d = cb)"
      by (auto simp: w')
  qed
next
  case (Advance d)
  with assms show ?thesis by (auto simp: subscribed_def)
qed

lemma run_subscribed:
  "run es w = Some w' \<Longrightarrow> subscribed cb w \<Longrightarrow> subscribed cb w'"
proof (induction es arbitrary: w)
  case Nil
  then show ?case by simp
next
  case (Cons e es)
  then obtain w1 where s: "step e w = Some w1" and r: "run es w1 = Some w'"
    by (auto split: option.splits)
  from Cons.IH [OF r step_subscribed [OF s Cons.prems(2)]] show ?case .
qed

text \<open>Every step keeps \<open>timer_origin\<close>.\<close>

lemma step_timer_origin:
  assumes "step e w = Some w'" and "timer_origin w"
  shows "timer_origin w'"
proof (cases e)
  case (Subscribe c)
  with assms(1) have w': "sockets w' = sockets w @
      [\<lparr>readyState = CONNECTING, callback = c, closedAt = None\<rparr>]" "timers w' = timers w"
    by (auto simp: subscribeToUpdates_def)
  show ?thesis unfolding timer_origin_def
  proof
    fix d assume "d \<in> set (timers w')"
    with assms(2) w' obtain j where j: "j < length (sockets w)"
      "readyState (sockets w ! j) = CLOSED \<and> callback (sockets w ! j) = snd d \<and>
        (\<exists>t. closedAt (sockets w ! j) = Some t \<and> fst d = t + 5000)"
      unfolding timer_origin_def by auto
    then have "j < length (sockets w')" "sockets w' ! j = sockets w ! j"
      by (simp_all add: w' nth_append)
    with j(2) show "\<exists>j < length (sockets w').
        readyState (sockets w' ! j) = CLOSED \<and> callback (sockets w' ! j) = snd d \<and>
        (\<exists>t. closedAt (sockets w' ! j) = Some t \<and> fst d = t + 5000)" by auto
  qed
next
  case Disconnect
  show ?thesis
  proof (cases "wsConnection w")
    case None
    with assms Disconnect show ?thesis by (simp add: disconnect_def)
  next
    case (Some i)
    with assms(1) Disconnect have w': "sockets w' = (sockets w)[i := ws_close (sockets w ! i)]"
      "timers w' = timers w" by (auto simp: disconnect_def)
    show ?thesis unfolding timer_origin_def
    proof
      fix d assume "d \<in> set (timers w')"
      with assms(2) w' obtain j where j: "j < length (sockets w)"
        "readyState (sockets w ! j) = CLOSED \<and> callback (sockets w ! j) = snd d \<and>
          (\<exists>t. closedAt (sockets w ! j) = Some t \<and> fst d = t + 5000)"
        unfolding timer_origin_def by auto
      then have "ws_close (sockets w ! j) = sockets w ! j" by (simp add: ws_close_def)
      with j(1) have "j < length (sockets w')" "sockets w' ! j = sockets w ! j"
        by (cases "j = i"; simp add: w')+
      with j(2) show "\<exists>j < length (sockets w').
          readyState (sockets w' ! j) = CLOSED \<and> callback (sockets w' ! j) = snd d \<and>
          (\<exists>t. closedAt (sockets w' ! j) = Some t \<and> fst d = t + 5000)" by auto
    qed
  qed
next
  case (SocketOpen i)
  with assms(1) have i: "i < length (sockets w)" "readyState (sockets w ! i) = CONNECTING"
    and w': "sockets w' = (sockets w)[i := (sockets w ! i)\<lparr>readyState := OPEN\<rparr>]"
      "timers w' = timers w"
    by (auto split: if_splits)
  show ?thesis unfolding timer_origin_def
  proof
    fix d assume "d \<in> set (timers w')"
    with assms(2) w' obtain j where j: "j < length (sockets w)"
      "readyState (sockets w ! j) = CLOSED \<and> callback (sockets w ! j) = snd d \<and>
        (\<exists>t. closedAt (sockets w ! j) = Some t \<and> fst d = t + 5000)"
      unfolding timer_origin_def by auto
    with i have "j \<noteq> i" by auto
    with j(1) have "j < length (sockets w')" "sockets w' ! j = sockets w ! j"
      by (simp_all add: w')
    with j(2) show "\<exists>j < length (sockets w').
        readyState (sockets w' ! j) = CLOSED \<and> callback (sockets w' ! j) = snd d \<and>
        (\<exists>t. closedAt (sockets w' ! j) = Some t \<and> fst d = t + 5000)" by auto
  qed
next
  case (SocketError i)
  with assms show ?thesis by (auto split: if_splits)
next
  case (SocketClose i)
  with assms(1) have i: "i < length (sockets w)" "readyState (sockets w ! i) \<noteq> CLOSED"
    and w': "sockets w' = (sockets w)
               [i := (sockets w ! i)\<lparr>readyState := CLOSED, closedAt := Some (clock w)\<rparr>]"
      "timers w' = timers w @ [(clock w + 5000, callback (sockets w ! i))]"
    by (auto simp: onclose_def split: if_splits)
  show ?thesis unfolding timer_origin_def
  proof
    fix d assume "d \<in> set (timers w')"
    then consider "d \<in> set (timers w)" | "d = (clock w + 5000, callback (sockets w ! i))"
      by (auto simp: w')
    then show "\<exists>j < length (sockets w').
        readyState (sockets w' ! j) = CLOSED \<and> callback (sockets w' ! j) = snd d \<and>
        (\<exists>t. closedAt (sockets w' ! j) = Some t \<and> fst d = t + 5000)"
    proof cases
      case 1
      with assms(2) obtain j where j: "j < length (sockets w)"
        "readyState (sockets w ! j) = CLOSED \<and> callback (sockets w ! j) = snd d \<and>
          (\<exists>t. closedAt (sockets w ! j) = Some t \<and> fst d = t + 5000)"
        unfolding timer_origin_def by auto
      with i have "j \<noteq> i" by auto
      with j(1) have "j < length (sockets w')" "sockets w' ! j = sockets w ! j"
        by (simp_all add: w')
      with j(2) show ?thesis by auto
    next
      case 2
      with i(1) have "i < length (sockets w')"
        "readyState (sockets w' ! i) = CLOSED \<and> callback (sockets w' ! i) = snd d \<and>
          (\<exists>t. closedAt (sockets w' ! i) = Some t \<and> fst d = t + 5000)"
        by (simp_all add: w')
      then show ?thesis by blast
    qed
  qed
next
  case (TimerFire k)
  with assms(1) have k: "k < length (timers w)"
    and w': "sockets w' = sockets w @
               [\<lparr>readyState = CONNECTING, callback = snd (timers w ! k), closedAt = None\<rparr>]"
      "timers w' = take k (timers w) @ drop (Suc k) (timers w)"
    by (auto simp: subscribeToUpdates_def split: if_splits)
  show ?thesis unfolding timer_origin_def
  proof
    fix d assume "d \<in> set (timers w')"
    then have "d \<in> set (timers w)"
      using set_take_subset [of k "timers w"] set_drop_subset [of "Suc k" "timers w"]
      by (auto simp: w')
    with assms(2) obtain j where j: "j < length (sockets w)"
      "readyState (sockets w ! j) = CLOSED \<and> callback (sockets w ! j) = snd d \<and>
        (\<exists>t. closedAt (sockets w ! j) = Some t \<and> fst d = t + 5000)"
      unfolding timer_origin_def by auto
    then have "j < length (sockets w')" "sockets w' ! j = sockets w ! j"
      by (simp_all add: w' nth_append)
    with j(2) show "\<exists>j < length (sockets w').
        readyState (sockets w' ! j) = CLOSED \<and> callback (sockets w' ! j) = snd d \<and>
        (\<exists>t. closedAt (sockets w' ! j) = Some t \<and> fst d = t + 5000)" by auto
  qed
next
  case (Advance dt)
  with assms(1) have "sockets w' = sockets w" "timers w' = timers w" by auto
  with assms(2) show ?thesis by (simp add: timer_origin_def)
qed

lemma run_timer_origin:
  "run es w = Some w' \<Longrightarrow> timer_origin w \<Longrightarrow> timer_origin w'"
proof (induction es arbitrary: w)
  case Nil
  then show ?case by simp
next
  case (Cons e es)
  then obtain w1 where s: "step e w = Some w1" and r: "run es w1 = Some w'"
    by (auto split: option.splits)
  from Cons.IH [OF r step_timer_origin [OF s Cons.prems(2)]] show ?case .
qed

text \<open>
  A step from a state with at most one connection or pending reconnect keeps
  \<open>closed_log\<close>.
\<close>

lemma active_pos:
  assumes "i < length (sockets w)" and "readyState (sockets w ! i) \<noteq> CLOSED"
  shows "1 \<le> active w"
proof -
  from assms have "sockets w ! i \<in> set (filter (\<lambda>s. readyState s \<noteq> CLOSED) (sockets w))"
    by simp
  then have "0 < length (filter (\<lambda>s. readyState s \<noteq> CLOSED) (sockets w))"
    by (rule length_pos_if_in_set)
  then show ?thesis unfolding active_def by linarith
qed

lemma step_closed_log:
  assumes "step e w = Some w'" and "closed_log w" and "active w + length (timers w) \<le> 1"
  shows "closed_log w'"
proof (cases e)
  case (Subscribe c)
  with assms(1) have w': "sockets w' = sockets w @
      [\<lparr>readyState = CONNECTING, callback = c, closedAt = None\<rparr>]" "timers w' = timers w"
      "clock w' = clock w"
    by (auto simp: subscribeToUpdates_def)
  with assms(2) show ?thesis by (auto simp: closed_log_def)
next
  case Disconnect
  show ?thesis
  proof (cases "wsConnection w")
    case None
    with assms Disconnect show ?thesis by (simp add: disconnect_def)
  next
    case (Some i)
    with assms(1) Disconnect have w': "sockets w' = (sockets w)[i := ws_close (sockets w ! i)]"
      "timers w' = timers w" "clock w' = clock w" by (auto simp: disconnect_def)
    have "s \<in> set (sockets w)" if s: "s \<in> set (sockets w')" "readyState s = CLOSED" for s
    proof (cases "i < length (sockets w)")
      case True
      from s(1) have "s = ws_close (sockets w ! i) \<or> s \<in> set (sockets w)"
        using set_update_subset_insert [of "sockets w" i "ws_close (sockets w ! i)"]
        by (auto simp: w')
      then show ?thesis
      proof
        assume e: "s = ws_close (sockets w ! i)"
        with s(2) have "ws_close (sockets w ! i) = sockets w ! i"
          by (auto simp: ws_close_def split: if_splits)
        with e True show ?thesis by simp
      qed
    next
      case False
      then have "sockets w' = sockets w" by (simp add: w' list_update_beyond)
      with s(1) show ?thesis by simp
    qed
    with assms(2) show ?thesis by (auto simp: closed_log_def w')
  qed
next
  case (SocketOpen i)
  with assms(1) have w': "sockets w' = (sockets w)[i := (sockets w ! i)\<lparr>readyState := OPEN\<rparr>]"
      "timers w' = timers w" "clock w' = clock w"
    by (auto split: if_splits)
  have "s \<in> set (sockets w)" if s: "s \<in> set (sockets w')" "readyState s = CLOSED" for s
    using s set_update_subset_insert [of "sockets w" i "(sockets w ! i)\<lparr>readyState := OPEN\<rparr>"]
    by (auto simp: w')
  with assms(2) show ?thesis by (auto simp: closed_log_def w')
next
  case (SocketError i)
  with assms show ?thesis by (auto split: if_splits)
next
  case (SocketClose i)
  with assms(1) have i: "i < length (sockets w)" "readyState (sockets w ! i) \<noteq> CLOSED"
    and w': "sockets w' = (sockets w)
               [i := (sockets w ! i)\<lparr>readyState := CLOSED, closedAt := Some (clock w)\<rparr>]"
      "timers w' = timers w @ [(clock w + 5000, callback (sockets w ! i))]"
      "clock w' = clock w"
    by (auto simp: onclose_def split: if_splits)
  from active_pos [OF i] assms(3) have "length (timers w) = 0" by linarith
  then have no_timers: "timers w = []" by simp
  show ?thesis unfolding closed_log_def
  proof (intro ballI impI)
    fix s assume s: "s \<in> set (sockets w')" "readyState s = CLOSED"
    from s(1) have "s = (sockets w ! i)\<lparr>readyState := CLOSED, closedAt := Some (clock w)\<rparr> \<or>
        s \<in> set (sockets w)"
      using set_update_subset_insert [of "sockets w" i
          "(sockets w ! i)\<lparr>readyState := CLOSED, closedAt := Some (clock w)\<rparr>"]
      by (auto simp: w')
    then show "\<exists>t. closedAt s = Some t \<and> t \<le> clock w' \<and>
        (\<forall>d \<in> set (timers w'). t + 5000 \<le> fst d)"
    proof
      assume "s = (sockets w ! i)\<lparr>readyState := CLOSED, closedAt := Some (clock w)\<rparr>"
      then show ?thesis by (simp add: w' no_timers)
    next
      assume "s \<in> set (sockets w)"
      with assms(2) s(2) obtain t where "closedAt s = Some t" "t \<le> clock w"
        by (auto simp: closed_log_def)
      then show ?thesis by (simp add: w' no_timers)
    qed
  qed
next
  case (TimerFire k)
  with assms(1) have w': "sockets w' = sockets w @
               [\<lparr>readyState = CONNECTING, callback = snd (timers w ! k), closedAt = None\<rparr>]"
      "timers w' = take k (timers w) @ drop (Suc k) (timers w)" "clock w' = clock w"
    by (auto simp: subscribeToUpdates_def split: if_splits)
  have sub: "set (timers w') \<subseteq> set (timers w)"
    using set_take_subset [of k "timers w"] set_drop_subset [of "Suc k" "timers w"]
    by (auto simp: w')
  show ?thesis unfolding closed_log_def
  proof (intro ballI impI)
    fix s assume s: "s \<in> set (sockets w')" "readyState s = CLOSED"
    then have "s \<in> set (sockets w)" by (auto simp: w')
    with assms(2) s(2) obtain t where t: "closedAt s = Some t" "t \<le> clock w"
      "\<forall>d \<in> set (timers w). t + 5000 \<le> fst d"
      by (auto simp: closed_log_def)
    with sub show "\<exists>t. closedAt s = Some t \<and> t \<le> clock w' \<and>
        (\<forall>d \<in> set (timers w'). t + 5000 \<le> fst d)"
      by (auto simp: w')
  qed
next
  case (Advance dt)
  with assms(1) have w': "sockets w' = sockets w" "timers w' = timers w"
    "clock w' = clock w + dt" by auto
  show ?thesis unfolding closed_log_def
  proof (intro ballI impI)
    fix s assume s: "s \<in> set (sockets w')" "readyState s = CLOSED"
    with assms(2) obtain t where t: "closedAt s = Some t" "t \<le> clock w"
      "\<forall>d \<in> set (timers w). t + 5000 \<le> fst d"
      by (auto simp: closed_log_def w')
    then show "\<exists>t. closedAt s = Some t \<and> t \<le> clock w' \<and>
        (\<forall>d \<in> set (timers w'). t + 5000 \<le> fst d)"
      by (auto simp: w')
  qed
qed

lemma run_closed_log:
  "run es w = Some w' \<Longrightarrow> closed_log w \<Longrightarrow>
   active w + length (timers w) + subscribes es \<le> 1 \<Longrightarrow> closed_log w'"
proof (induction es arbitrary: w)
  case Nil
  then show ?case by simp
next
  case (Cons e es)
  then obtain w1 where s: "step e w = Some w1" and r: "run es w1 = Some w'"
    by (auto split: option.splits)
  from Cons.prems(3) have b: "active w + length (timers w) \<le> 1" by simp
  have c: "closed_log w1" by (rule step_closed_log [OF s Cons.prems(2) b])
  from step_count [OF s] Cons.prems(3)
  have "active w1 + length (timers w1) + subscribes es \<le> 1"
    by (simp add: subscribes_def split: if_splits)
  from Cons.IH [OF r c this] show ?case .
qed

lemma fresh_invariants:
  "closed_log (fresh t0)" "timer_origin (fresh t0)"
  "active (fresh t0) = 0" "timers (fresh t0) = []"
  by (simp_all add: fresh_def closed_log_def timer_origin_def active_def)

text \<open>
  C1, as the code has it. From a fresh adapter, after any sequence of subscribe calls,
  socket events, reconnect firings, disconnect calls and passing time, the connections that
  have not fully closed and the pending reconnects are together as many as the calls of
  \<open>subscribe\<close>. So with at most one call of \<open>subscribe\<close>, at most one connection is
  active, no reconnect is pending while one is, and a reconnect opens its connection only
  when every connection made before has fully closed, at least 5000 ms earlier. The
  statement is about every run, so about every moment of a run.
\<close>

theorem single_connection:
  assumes "run es (fresh t0) = Some w"
  shows "active w + length (timers w) = subscribes es \<and>
    (subscribes es \<le> 1 \<longrightarrow>
       active w \<le> 1 \<and>
       (\<forall>k w'. step (TimerFire k) w = Some w' \<longrightarrow>
          (\<forall>s \<in> set (sockets w).
             readyState s = CLOSED \<and> (\<exists>t. closedAt s = Some t \<and> t + 5000 \<le> clock w))))"
proof (intro conjI impI allI)
  show count: "active w + length (timers w) = subscribes es"
    using run_count [OF assms] by (simp add: fresh_invariants)
  assume one: "subscribes es \<le> 1"
  with count show "active w \<le> 1" by simp
  fix k w'
  assume fire: "step (TimerFire k) w = Some w'"
  then have k: "k < length (timers w)" "fst (timers w ! k) \<le> clock w"
    by (auto split: if_splits)
  with count one have "active w = 0" by simp
  then have closed: "\<forall>s \<in> set (sockets w). readyState s = CLOSED"
    by (auto simp: active_def filter_empty_conv)
  have log: "closed_log w"
    using run_closed_log [OF assms] one by (simp add: fresh_invariants)
  show "\<forall>s \<in> set (sockets w).
      readyState s = CLOSED \<and> (\<exists>t. closedAt s = Some t \<and> t + 5000 \<le> clock w)"
  proof
    fix s assume s: "s \<in> set (sockets w)"
    with closed have c: "readyState s = CLOSED" by blast
    with log s obtain t where t: "closedAt s = Some t"
      "\<forall>d \<in> set (timers w). t + 5000 \<le> fst d"
      by (auto simp: closed_log_def)
    from k(1) have "timers w ! k \<in> set (timers w)" by simp
    with t(2) k(2) have "t + 5000 \<le> clock w" by fastforce
    with c t(1) show "readyState s = CLOSED \<and>
        (\<exists>t. closedAt s = Some t \<and> t + 5000 \<le> clock w)" by blast
  qed
qed

theorem single_connection_witness:
  "run [Subscribe (7 :: nat), SocketOpen 0, Disconnect, Advance 100, SocketClose 0, Advance 5000]
     (fresh 0) =
     Some \<lparr>wsConnection = None,
           sockets = [\<lparr>readyState = CLOSED, callback = 7, closedAt = Some 100\<rparr>],
           timers = [(5100, 7)], clock = 5100\<rparr> \<and>
   active \<lparr>wsConnection = None,
           sockets = [\<lparr>readyState = CLOSED, callback = 7 :: nat, closedAt = Some 100\<rparr>],
           timers = [(5100, 7)], clock = 5100\<rparr> \<le> 1 \<and>
   (\<exists>t. closedAt \<lparr>readyState = CLOSED, callback = 7 :: nat, closedAt = Some 100\<rparr> = Some t \<and>
        t + 5000 \<le> (5100 :: nat))"
proof -
  let ?es = "[Subscribe (7 :: nat), SocketOpen 0, Disconnect, Advance 100, SocketClose 0,
    Advance 5000]"
  let ?w = "\<lparr>wsConnection = None,
           sockets = [\<lparr>readyState = CLOSED, callback = 7 :: nat, closedAt = Some 100\<rparr>],
           timers = [(5100, 7)], clock = 5100\<rparr>"
  have r: "run ?es (fresh 0) = Some ?w"
    by (simp add: fresh_def subscribeToUpdates_def disconnect_def ws_close_def onclose_def)
  have s: "subscribes ?es \<le> 1"
    by (simp add: subscribes_def)
  have f: "step (TimerFire 0) ?w = Some (subscribeToUpdates 7 (?w\<lparr>timers := []\<rparr>))"
    by simp
  from single_connection [OF r] s f show ?thesis
    using r by fastforce
qed

theorem two_subscribes_two_connections:
  "map_option active (run [Subscribe (7 :: nat), Subscribe 7] (fresh 0)) = Some 2"
  by (simp add: fresh_def subscribeToUpdates_def active_def)

text \<open>
  C8. The close event of a socket, whatever closed it, schedules exactly one reconnect,
  due 5000 ms later whatever happened before, with the callback the socket was subscribed
  with, and opens nothing by itself. A reconnect runs no earlier than its due time, runs
  once, and opens exactly one connection with that callback. In every state a fresh adapter
  can reach, a reconnect that runs was scheduled by a socket that closed at least 5000 ms
  before. Once \<open>subscribe(cb)\<close> has been called, there is always a connection with
  \<open>cb\<close> that has not fully closed or a pending reconnect with \<open>cb\<close>: the subscription
  never ends.
\<close>

theorem reconnect_after_close:
  "(step (SocketClose i) w = Some w' \<longrightarrow>
      timers w' = timers w @ [(clock w + 5000, callback (sockets w ! i))] \<and>
      length (sockets w') = length (sockets w) \<and>
      readyState (sockets w' ! i) = CLOSED) \<and>
   (step (TimerFire k) w = Some w' \<longrightarrow>
      fst (timers w ! k) \<le> clock w \<and>
      sockets w' = sockets w @
        [\<lparr>readyState = CONNECTING, callback = snd (timers w ! k), closedAt = None\<rparr>] \<and>
      timers w' = take k (timers w) @ drop (Suc k) (timers w) \<and>
      wsConnection w' = Some (length (sockets w))) \<and>
   (run es (fresh t0) = Some w \<and> step (TimerFire k) w = Some w' \<longrightarrow>
      (\<exists>j < length (sockets w).
         readyState (sockets w ! j) = CLOSED \<and>
         callback (sockets w ! j) = snd (timers w ! k) \<and>
         (\<exists>t. closedAt (sockets w ! j) = Some t \<and> t + 5000 \<le> clock w))) \<and>
   (run es (subscribeToUpdates cb w0) = Some w \<longrightarrow>
      (\<exists>s \<in> set (sockets w). readyState s \<noteq> CLOSED \<and> callback s = cb) \<or>
      (\<exists>d \<in> set (timers w). snd d = cb))"
proof (intro conjI impI)
  assume "step (SocketClose i) w = Some w'"
  then show "timers w' = timers w @ [(clock w + 5000, callback (sockets w ! i))]"
    and "length (sockets w') = length (sockets w)"
    and "readyState (sockets w' ! i) = CLOSED"
    by (auto simp: onclose_def split: if_splits)
next
  assume "step (TimerFire k) w = Some w'"
  then show "fst (timers w ! k) \<le> clock w"
    and "sockets w' = sockets w @
        [\<lparr>readyState = CONNECTING, callback = snd (timers w ! k), closedAt = None\<rparr>]"
    and "timers w' = take k (timers w) @ drop (Suc k) (timers w)"
    and "wsConnection w' = Some (length (sockets w))"
    by (auto simp: subscribeToUpdates_def split: if_splits)
next
  assume a: "run es (fresh t0) = Some w \<and> step (TimerFire k) w = Some w'"
  then have k: "k < length (timers w)" "fst (timers w ! k) \<le> clock w"
    by (auto split: if_splits)
  from a have "timer_origin w"
    using run_timer_origin [of es "fresh t0" w] by (simp add: fresh_invariants)
  moreover from k(1) have "timers w ! k \<in> set (timers w)" by simp
  ultimately obtain j t where "j < length (sockets w)"
    "readyState (sockets w ! j) = CLOSED" "callback (sockets w ! j) = snd (timers w ! k)"
    "closedAt (sockets w ! j) = Some t" "fst (timers w ! k) = t + 5000"
    unfolding timer_origin_def by blast
  with k(2) show "\<exists>j < length (sockets w).
         readyState (sockets w ! j) = CLOSED \<and>
         callback (sockets w ! j) = snd (timers w ! k) \<and>
         (\<exists>t. closedAt (sockets w ! j) = Some t \<and> t + 5000 \<le> clock w)"
    by auto
next
  assume r: "run es (subscribeToUpdates cb w0) = Some w"
  have "subscribed cb (subscribeToUpdates cb w0)"
    by (simp add: subscribed_def subscribeToUpdates_def)
  from run_subscribed [OF r this]
  show "(\<exists>s \<in> set (sockets w). readyState s \<noteq> CLOSED \<and> callback s = cb) \<or>
      (\<exists>d \<in> set (timers w). snd d = cb)"
    by (simp add: subscribed_def)
qed

theorem reconnect_after_close_witness:
  "run [Subscribe (7 :: nat), SocketOpen 0, Advance 100, SocketClose 0, Advance 5000] (fresh 0) =
     Some \<lparr>wsConnection = Some 0,
           sockets = [\<lparr>readyState = CLOSED, callback = 7, closedAt = Some 100\<rparr>],
           timers = [(5100, 7)], clock = 5100\<rparr> \<and>
   step (TimerFire 0)
     \<lparr>wsConnection = Some 0,
      sockets = [\<lparr>readyState = CLOSED, callback = 7 :: nat, closedAt = Some 100\<rparr>],
      timers = [(5100, 7)], clock = 5100\<rparr> =
     Some \<lparr>wsConnection = Some 1,
           sockets = [\<lparr>readyState = CLOSED, callback = 7, closedAt = Some 100\<rparr>,
                      \<lparr>readyState = CONNECTING, callback = 7, closedAt = None\<rparr>],
           timers = [], clock = 5100\<rparr> \<and>
   step (TimerFire 0)
     \<lparr>wsConnection = Some 0,
      sockets = [\<lparr>readyState = CLOSED, callback = 7 :: nat, closedAt = Some 100\<rparr>],
      timers = [(5099, 7)], clock = 5098\<rparr> = None"
proof -
  let ?es = "[Subscribe (7 :: nat), SocketOpen 0, Advance 100, SocketClose 0, Advance 5000]"
  let ?w = "\<lparr>wsConnection = Some 0,
           sockets = [\<lparr>readyState = CLOSED, callback = 7 :: nat, closedAt = Some 100\<rparr>],
           timers = [(5100, 7)], clock = 5100\<rparr>"
  let ?w' = "\<lparr>wsConnection = Some 1,
           sockets = [\<lparr>readyState = CLOSED, callback = 7 :: nat, closedAt = Some 100\<rparr>,
                      \<lparr>readyState = CONNECTING, callback = 7, closedAt = None\<rparr>],
           timers = [], clock = 5100\<rparr>"
  have r: "run ?es (fresh 0) = Some ?w"
    by (simp add: fresh_def subscribeToUpdates_def onclose_def)
  have f: "step (TimerFire 0) ?w = Some ?w'"
    by (simp add: subscribeToUpdates_def)
  have n: "step (TimerFire 0) (?w\<lparr>timers := [(5099, 7)], clock := 5098\<rparr>) = None"
    by simp
  from reconnect_after_close [of 0 ?w ?w' 0 ?es 0 7 "fresh 0"] r f n show ?thesis
    by simp
qed

text \<open>
  C9. \<open>disconnect\<close> clears the reference and, when the reference was set, closes the
  socket it named: a connecting or open socket starts closing. A second call changes
  nothing, so the reference is cleared after each call. The function is total: it does not
  raise.
\<close>

theorem disconnect_idempotent:
  "disconnect (disconnect w) = disconnect w \<and>
   wsConnection (disconnect w) = None \<and>
   wsConnection (disconnect (disconnect w)) = None \<and>
   (\<forall>i. wsConnection w = Some i \<and> i < length (sockets w) \<and>
        (readyState (sockets w ! i) = CONNECTING \<or> readyState (sockets w ! i) = OPEN) \<longrightarrow>
        readyState (sockets (disconnect w) ! i) = CLOSING) \<and>
   (wsConnection w = None \<longrightarrow> disconnect w = w)"
  by (auto simp: disconnect_def ws_close_def split: option.splits)

theorem disconnect_idempotent_witness:
  "disconnect (disconnect \<lparr>wsConnection = Some 0,
       sockets = [\<lparr>readyState = OPEN, callback = 7 :: nat, closedAt = None\<rparr>],
       timers = [], clock = 0\<rparr>) =
     \<lparr>wsConnection = None,
      sockets = [\<lparr>readyState = CLOSING, callback = 7, closedAt = None\<rparr>],
      timers = [], clock = 0\<rparr> \<and>
   disconnect \<lparr>wsConnection = Some 0,
       sockets = [\<lparr>readyState = OPEN, callback = 7 :: nat, closedAt = None\<rparr>],
       timers = [], clock = 0\<rparr> =
     \<lparr>wsConnection = None,
      sockets = [\<lparr>readyState = CLOSING, callback = 7, closedAt = None\<rparr>],
      timers = [], clock = 0\<rparr>"
proof -
  have d: "disconnect \<lparr>wsConnection = Some 0,
       sockets = [\<lparr>readyState = OPEN, callback = 7 :: nat, closedAt = None\<rparr>],
       timers = [], clock = 0\<rparr> =
     \<lparr>wsConnection = None,
      sockets = [\<lparr>readyState = CLOSING, callback = 7, closedAt = None\<rparr>],
      timers = [], clock = 0\<rparr>"
    by (simp add: disconnect_def ws_close_def)
  from disconnect_idempotent [of "\<lparr>wsConnection = Some 0,
       sockets = [\<lparr>readyState = OPEN, callback = 7 :: nat, closedAt = None\<rparr>],
       timers = [], clock = 0\<rparr>"] d
  show ?thesis by simp
qed

end
